(* ===== verification/Prelude.thy ===== *)
theory Prelude
  imports Main "HOL-Library.Word"
begin

text \<open>
  Shared vocabulary of the development: the machine types of the Go program, Go strings as
  byte strings, the few functions of the Go standard library that several components use
  (\<^verbatim>\<open>strconv\<close>, \<^verbatim>\<open>strings\<close>), and the generic lemmas on lists and words the component theories
  rest on.  A Go string is a sequence of bytes; it is modelled as a HOL \<open>string\<close>, one character
  per byte.
\<close>

unbundle bit_operations_syntax

named_theorems wire_simps \<open>rewrite rules that evaluate the protobuf codec\<close>
named_theorems omni_defs \<open>definitions unfolded when an operation is evaluated step by step\<close>

section \<open>Machine types\<close>

type_synonym byte = "8 word"
type_synonym uint16 = "16 word"
type_synonym uint32 = "32 word"
type_synonym int32 = "32 word" \<comment> \<open>read with \<open>sint\<close>\<close>
type_synonym uint64 = "64 word"
type_synonym int64 = "64 word" \<comment> \<open>read with \<open>sint\<close>; Go's \<^verbatim>\<open>int\<close> has this width\<close>

type_synonym gostring = string

text \<open>The run-time panics of Go that the modelled code can raise; each one ends the process.\<close>

datatype panic =
  NilDereference | IndexOutOfRange | TypeAssertionFailed | SendOnClosedChannel |
  CloseOfClosedChannel | MakeSliceLen

section \<open>Strings and byte slices\<close>

definition byte_of :: "char \<Rightarrow> byte" where
  "byte_of c = word_of_nat (of_char c)"

definition char_of_byte :: "byte \<Rightarrow> char" where
  "char_of_byte b = char_of (unat b)"

text \<open>The conversions \<^verbatim>\<open>[]byte(s)\<close> and \<^verbatim>\<open>string(b)\<close>.\<close>

definition to_bytes :: "gostring \<Rightarrow> byte list" where
  "to_bytes s = map byte_of s"

definition from_bytes :: "byte list \<Rightarrow> gostring" where
  "from_bytes b = map char_of_byte b"

lemma char_of_byte_of [simp]: "char_of_byte (byte_of c) = c"
proof -
  have "(of_char c :: nat) < 256"
    by (rule nat_of_char_less_256)
  then show ?thesis
    by (simp add: char_of_byte_def byte_of_def unat_of_nat)
qed

lemma from_to_bytes [simp]: "from_bytes (to_bytes s) = s"
  by (simp add: from_bytes_def to_bytes_def comp_def)

lemma length_to_bytes [simp]: "length (to_bytes s) = length s"
  by (simp add: to_bytes_def)

lemma to_bytes_Nil_iff [simp]: "to_bytes s = [] \<longleftrightarrow> s = []"
  by (simp add: to_bytes_def)

section \<open>Decimal numbers (\<^verbatim>\<open>strconv\<close>)\<close>

definition digit :: "nat \<Rightarrow> char" where
  "digit n = char_of (48 + n)"

definition is_digit :: "char \<Rightarrow> bool" where
  "is_digit c \<longleftrightarrow> 48 \<le> (of_char c :: nat) \<and> (of_char c :: nat) \<le> 57"

definition digit_val :: "char \<Rightarrow> nat" where
  "digit_val c = of_char c - 48"

fun dec_nat :: "nat \<Rightarrow> gostring" where
  "dec_nat n = (if n < 10 then [digit n] else dec_nat (n div 10) @ [digit (n mod 10)])"

declare dec_nat.simps [simp del]

definition undec_from :: "nat \<Rightarrow> gostring \<Rightarrow> nat" where
  "undec_from = foldl (\<lambda>a c. 10 * a + digit_val c)"

text \<open>A non-empty run of decimal digits, as \<^verbatim>\<open>strconv.ParseUint\<close> reads it.\<close>

definition undec :: "gostring \<Rightarrow> nat option" where
  "undec s = (if s \<noteq> [] \<and> list_all is_digit s then Some (undec_from 0 s) else None)"

definition FormatInt :: "int \<Rightarrow> gostring" where
  "FormatInt i = (if i < 0 then CHR ''-'' # dec_nat (nat (- i)) else dec_nat (nat i))"

definition FormatUint :: "nat \<Rightarrow> gostring" where
  "FormatUint n = dec_nat n"

definition FormatBool :: "bool \<Rightarrow> gostring" where
  "FormatBool b = (if b then ''true'' else ''false'')"

text \<open>\<^verbatim>\<open>strconv.Atoi\<close>: an optional sign, digits, and a value that fits an \<^verbatim>\<open>int\<close> (64 bits).\<close>

definition Atoi :: "gostring \<Rightarrow> int option" where
  "Atoi s =
     (let neg = (s \<noteq> [] \<and> hd s = CHR ''-'');
          rest = (if s \<noteq> [] \<and> (hd s = CHR ''-'' \<or> hd s = CHR ''+'') then tl s else s)
      in case undec rest of
           None \<Rightarrow> None
         | Some n \<Rightarrow>
             (let v = (if neg then - int n else int n)
              in if - (2 ^ 63) \<le> v \<and> v < 2 ^ 63 then Some v else None))"

lemma of_char_digit: "n < 10 \<Longrightarrow> (of_char (digit n) :: nat) = 48 + n"
  by (simp add: digit_def)

lemma is_digit_digit [simp]: "n < 10 \<Longrightarrow> is_digit (digit n)"
  by (simp add: is_digit_def of_char_digit)

lemma digit_val_digit [simp]: "n < 10 \<Longrightarrow> digit_val (digit n) = n"
  by (simp add: digit_val_def of_char_digit)

lemma dec_nat_digits: "list_all is_digit (dec_nat n)"
proof (induction n rule: dec_nat.induct)
  case (1 n)
  then show ?case by (subst dec_nat.simps) auto
qed

lemma dec_nat_not_Nil [simp]: "dec_nat n \<noteq> []"
  by (subst dec_nat.simps) simp

lemma undec_from_append:
  "undec_from a (s @ t) = undec_from (undec_from a s) t"
  by (simp add: undec_from_def)

lemma undec_from_single [simp]: "undec_from a [c] = 10 * a + digit_val c"
  by (simp add: undec_from_def)

lemma undec_from_dec_nat: "undec_from 0 (dec_nat n) = n"
proof (induction n rule: dec_nat.induct)
  case (1 n)
  then show ?case
    by (subst dec_nat.simps) (auto simp: undec_from_append)
qed

lemma undec_dec_nat [simp]: "undec (dec_nat n) = Some n"
  by (simp add: undec_def dec_nat_digits undec_from_dec_nat)

lemma dec_nat_inj: "dec_nat m = dec_nat n \<longleftrightarrow> m = n"
  by (metis undec_from_dec_nat)

lemma hd_dec_nat_digit: "is_digit (hd (dec_nat n))"
  using dec_nat_digits [of n] by (cases "dec_nat n") auto

lemma Atoi_FormatInt:
  assumes "- (2 ^ 63) \<le> i" and "i < 2 ^ 63"
  shows "Atoi (FormatInt i) = Some i"
proof (cases "i < 0")
  case True
  with assms show ?thesis by (simp add: FormatInt_def Atoi_def Let_def)
next
  case False
  have "is_digit (hd (dec_nat (nat i)))" by (rule hd_dec_nat_digit)
  then have "hd (dec_nat (nat i)) \<noteq> CHR ''-''" and "hd (dec_nat (nat i)) \<noteq> CHR ''+''"
    by (auto simp: is_digit_def)
  with False assms show ?thesis by (simp add: FormatInt_def Atoi_def Let_def)
qed

section \<open>\<^verbatim>\<open>strings.Split\<close> with a one-byte separator\<close>

fun strings_Split :: "gostring \<Rightarrow> char \<Rightarrow> gostring list" where
  "strings_Split [] sep = [[]]"
| "strings_Split (x # xs) sep =
     (if x = sep then [] # strings_Split xs sep
      else case strings_Split xs sep of
             [] \<Rightarrow> [[x]]
           | w # ws \<Rightarrow> (x # w) # ws)"

lemma strings_Split_not_Nil [simp]: "strings_Split s sep \<noteq> []"
  by (cases s) (auto split: list.splits)

lemma strings_Split_no_sep: "sep \<notin> set s \<Longrightarrow> strings_Split s sep = [s]"
  by (induction s) auto

lemma strings_Split_append:
  "sep \<notin> set s \<Longrightarrow> strings_Split (s @ sep # t) sep = s # strings_Split t sep"
  by (induction s) auto

lemma last_strings_Split_append:
  "sep \<notin> set t \<Longrightarrow> last (strings_Split (s @ sep # t) sep) = t"
proof (induction s)
  case Nil
  then show ?case by (simp add: strings_Split_no_sep)
next
  case (Cons x xs)
  have "strings_Split (xs @ sep # t) sep \<noteq> []" by simp
  then obtain w ws where w: "strings_Split (xs @ sep # t) sep = w # ws"
    by (cases "strings_Split (xs @ sep # t) sep") auto
  have "ws \<noteq> []"
  proof -
    have "length (strings_Split (ys @ sep # t) sep) \<ge> 2" for ys
    proof (induction ys)
      case Nil
      then show ?case by (cases "strings_Split t sep") auto
    next
      case (Cons y ys)
      then show ?case by (auto split: list.splits)
    qed
    from this [of xs] w show ?thesis by auto
  qed
  with Cons w show ?case by auto
qed

section \<open>Lists and words\<close>

lemma drop_eq_append_nth:
  assumes "drop i d = x # r"
  shows "i < length d" and "d ! i = x" and "drop (Suc i) d = r"
proof -
  from assms show *: "i < length d" by (metis drop_all list.distinct(1) not_less)
  then have "drop i d = d ! i # drop (Suc i) d" by (simp add: Cons_nth_drop_Suc)
  with assms show "d ! i = x" and "drop (Suc i) d = r" by simp_all
qed

lemma drop_eq_append:
  assumes "drop i d = x @ r"
  shows "take (length x) (drop i d) = x" and "drop (i + length x) d = r"
proof -
  from assms show "take (length x) (drop i d) = x" by simp
  have "drop (i + length x) d = drop (length x) (drop i d)" by (simp add: add.commute)
  with assms show "drop (i + length x) d = r" by simp
qed

lemma length_drop_eq_append:
  assumes "drop i d = x @ r" and "i \<le> length d"
  shows "length d = i + length x + length r"
proof -
  from assms(1) have "length d - i = length x + length r"
    by (metis length_append length_drop)
  with assms(2) show ?thesis by simp
qed

lemma take_Suc_update:
  "i < length xs \<Longrightarrow> take (Suc i) (xs[i := x]) = take i xs @ [x]"
  by (simp add: take_Suc_conv_app_nth)

lemma unat_less_2p: "unat w < 2 ^ LENGTH('a)" for w :: "'a::len word"
  by (rule unsigned_less)

lemma word_sub_no_wrap:
  fixes a b :: "'a::len word"
  assumes "b \<le> a"
  shows "unat (a - b) + unat b = unat a"
  using assms by (simp add: unat_sub word_le_nat_alt)

lemma word_sub_wrap:
  fixes a b :: "'a::len word"
  assumes "a < b"
  shows "a < a - b"
proof -
  have "uint (a - b) = (uint a - uint b) mod 2 ^ LENGTH('a)"
    by (simp add: uint_word_ariths)
  moreover have "uint a < uint b" using assms by (simp add: word_less_def)
  moreover have "0 \<le> uint a" by simp
  moreover have "uint b < 2 ^ LENGTH('a)" by (rule uint_lt2p)
  ultimately have "uint (a - b) = uint a - uint b + 2 ^ LENGTH('a)"
    by (smt (verit, ccfv_threshold) mod_add_self2 mod_pos_pos_trivial)
  with \<open>uint b < 2 ^ LENGTH('a)\<close> show ?thesis by (simp add: word_less_def)
qed

section \<open>Step systems and their invariants\<close>

text \<open>
  The concurrent components are step relations.  A state is reachable if a sequence of steps
  leads to it from an initial state; a predicate that holds initially and that every step keeps
  holds in all of them.
\<close>

inductive reachable :: "('s \<Rightarrow> bool) \<Rightarrow> ('s \<Rightarrow> 's \<Rightarrow> bool) \<Rightarrow> 's \<Rightarrow> bool" for init step where
  reach_init: "init s \<Longrightarrow> reachable init step s"
| reach_step: "reachable init step s \<Longrightarrow> step s t \<Longrightarrow> reachable init step t"

locale invariant_system =
  fixes init :: "'s \<Rightarrow> bool" and step :: "'s \<Rightarrow> 's \<Rightarrow> bool" and inv :: "'s \<Rightarrow> bool"
  assumes inv_init: "init s \<Longrightarrow> inv s"
    and inv_step: "step s t \<Longrightarrow> inv s \<Longrightarrow> inv t"
begin

lemma invariant: "reachable init step s \<Longrightarrow> inv s"
  by (induction rule: reachable.induct) (auto intro: inv_init inv_step)

lemma invariant_imp:
  assumes "\<And>s. inv s \<Longrightarrow> Q s" and "reachable init step s"
  shows "Q s"
  using assms(1) invariant [OF assms(2)] by blast

end

lemma reachable_trans:
  assumes "reachable ((=) t) step u" and "reachable init step t"
  shows "reachable init step u"
  using assms by (induction rule: reachable.induct) (auto intro: reach_step)

text \<open>
  A detailed system simulates an abstract one if each of its steps, seen through an abstraction
  function, is an abstract step or changes nothing; what is known of the reachable detailed
  states may be used.  Then every reachable state is a reachable abstract one.
\<close>

locale simulation = invariant_system init step inv
  for init :: "'s \<Rightarrow> bool" and step :: "'s \<Rightarrow> 's \<Rightarrow> bool" and inv :: "'s \<Rightarrow> bool" +
  fixes abs :: "'s \<Rightarrow> 'a" and abs_init :: "'a \<Rightarrow> bool" and abs_step :: "'a \<Rightarrow> 'a \<Rightarrow> bool"
  assumes sim_init: "init s \<Longrightarrow> abs_init (abs s)"
    and sim_step: "step s t \<Longrightarrow> inv s \<Longrightarrow> abs_step (abs s) (abs t) \<or> abs t = abs s"
begin

lemma simulated:
  assumes "reachable init step s"
  shows "reachable abs_init abs_step (abs s)"
  using assms
proof (induction rule: reachable.induct)
  case (reach_init s)
  then show ?case by (intro reachable.reach_init sim_init)
next
  case (reach_step s t)
  from sim_step [OF reach_step(2) invariant [OF reach_step(1)]] reach_step(3) show ?case
    by (auto intro: reachable.reach_step)
qed

lemma simulated_run: "step\<^sup>*\<^sup>* s t \<Longrightarrow> inv s \<Longrightarrow> abs_step\<^sup>*\<^sup>* (abs s) (abs t) \<and> inv t"
proof (induction rule: rtranclp_induct)
  case (step t u)
  then have "abs_step\<^sup>*\<^sup>* (abs s) (abs t)" "inv t" by simp_all
  with sim_step [OF step(2)] inv_step [OF step(2)] show ?case
    by (auto intro: rtranclp.rtrancl_into_rtrancl)
qed simp

end

end
