(* ===== verification/GoTime.thy ===== *)
theory GoTime
  imports Prelude
begin

text \<open>
  The part of Go's \<^verbatim>\<open>time\<close> package the program uses.  A \<^verbatim>\<open>time.Time\<close> keeps its wall clock as a
  signed 64-bit count of seconds since the year 1 and nanoseconds within the second, and, when
  it was read by \<^verbatim>\<open>time.Now\<close>, a monotonic reading; \<^verbatim>\<open>time.Unix\<close> adds the distance between the
  two epochs with wrap-around.  Locations are not modelled: the host runs in UTC.
  The second half is the RFC 3339 text \<^verbatim>\<open>encoding/json\<close> writes for a time and reads back.
\<close>

section \<open>Instants\<close>

record gotime =
  t_sec :: int64
  t_nsec :: nat
  t_mono :: "int64 option"

definition unixToInternal :: int64 where
  "unixToInternal = 62135596800"

definition time_Unix :: "int64 \<Rightarrow> gotime" where
  "time_Unix s = \<lparr>t_sec = s + unixToInternal, t_nsec = 0, t_mono = None\<rparr>"

text \<open>The method \<^verbatim>\<open>Unix\<close>; the zero value \<^verbatim>\<open>time.Time{}\<close>.\<close>

definition Unix :: "gotime \<Rightarrow> int64" where
  "Unix t = t_sec t - unixToInternal"

definition zero_time :: gotime where
  "zero_time = \<lparr>t_sec = 0, t_nsec = 0, t_mono = None\<rparr>"

definition Before :: "gotime \<Rightarrow> gotime \<Rightarrow> bool" where
  "Before t u =
     (case (t_mono t, t_mono u) of
        (Some a, Some b) \<Rightarrow> sint a < sint b
      | _ \<Rightarrow> sint (t_sec t) < sint (t_sec u) \<or>
             (t_sec t = t_sec u \<and> t_nsec t < t_nsec u))"

text \<open>
  \<^verbatim>\<open>Add\<close> of a duration of \<open>n\<close> whole, non-negative seconds (every duration of the program is
  one): the wall clock saturates, a monotonic reading that would overflow is dropped.
\<close>

definition add_secs :: "gotime \<Rightarrow> nat \<Rightarrow> gotime" where
  "add_secs t n =
     \<lparr>t_sec = (let v = sint (t_sec t) + int n
               in if v < 2 ^ 63 then word_of_int v else word_of_int (2 ^ 63 - 1)),
      t_nsec = t_nsec t,
      t_mono = (case t_mono t of
                  None \<Rightarrow> None
                | Some m \<Rightarrow> (let v = sint m + int n * 1000000000
                             in if v < 2 ^ 63 then Some (word_of_int v) else None))\<rparr>"

lemma Unix_time_Unix [simp]: "Unix (time_Unix s) = s"
  by (simp add: Unix_def time_Unix_def)

lemma time_Unix_Unix:
  "t_nsec t = 0 \<Longrightarrow> t_mono t = None \<Longrightarrow> time_Unix (Unix t) = t"
  by (simp add: Unix_def time_Unix_def)

lemma Unix_zero_time: "sint (Unix zero_time) = - 62135596800"
  by (simp add: Unix_def zero_time_def unixToInternal_def)

lemma Before_irrefl [simp]: "\<not> Before t t"
  by (simp add: Before_def split: option.splits)

lemma Before_wall:
  "t_mono t = None \<Longrightarrow> Before t u \<longleftrightarrow>
     sint (t_sec t) < sint (t_sec u) \<or> (t_sec t = t_sec u \<and> t_nsec t < t_nsec u)"
  by (simp add: Before_def)

lemma Before_trans_wall:
  "t_mono t = None \<Longrightarrow> t_mono u = None \<Longrightarrow> t_mono v = None \<Longrightarrow>
   Before t u \<Longrightarrow> Before u v \<Longrightarrow> Before t v"
  by (auto simp: Before_def)

lemma Before_zero_time: "0 < sint (t_sec u) \<Longrightarrow> Before zero_time u"
  by (simp add: Before_def zero_time_def)

text \<open>
  \<open>time_Unix\<close> keeps the order of the seconds as long as the sum does not wrap; the seconds
  beyond that point land in the distant past.
\<close>

lemma sint_add_no_wrap:
  fixes a b :: int64
  assumes "- (2 ^ 63) \<le> sint a + sint b" and "sint a + sint b < 2 ^ 63"
  shows "sint (a + b) = sint a + sint b"
  using assms by (simp add: signed_take_bit_int_eq_self sint_word_ariths)

lemma sint_unixToInternal [simp]: "sint unixToInternal = 62135596800"
  by (simp add: unixToInternal_def)

lemma sint_time_Unix:
  assumes "sint s < 2 ^ 63 - 62135596800"
  shows "sint (t_sec (time_Unix s)) = sint s + 62135596800"
proof -
  have "- (2 ^ 63) \<le> sint s" using sint_greater_eq [of s] by simp
  then show ?thesis
    using assms sint_add_no_wrap [of s unixToInternal] by (simp add: time_Unix_def)
qed

section \<open>The proleptic Gregorian calendar\<close>

definition isLeap :: "int \<Rightarrow> bool" where
  "isLeap y \<longleftrightarrow> y mod 4 = 0 \<and> (y mod 100 \<noteq> 0 \<or> y mod 400 = 0)"

text \<open>Days before each month of a common year.\<close>

definition daysBefore :: "nat list" where
  "daysBefore = [0, 31, 59, 90, 120, 151, 181, 212, 243, 273, 304, 334, 365]"

text \<open>Year and day of the year of a day counted from 0001-01-01.\<close>

definition year_yday :: "int \<Rightarrow> int \<times> nat" where
  "year_yday n =
     (let a = n div 146097; r = n mod 146097;
          b = r div 36524 - r div 36524 div 4; r2 = r - 36524 * b;
          c = r2 div 1461; r3 = r2 - 1461 * c;
          e = r3 div 365 - r3 div 365 div 4
      in (400 * a + 100 * b + 4 * c + e + 1, nat (r3 - 365 * e)))"

definition month_day :: "bool \<Rightarrow> nat \<Rightarrow> nat \<times> nat" where
  "month_day leap yday =
     (if leap \<and> yday = 59 then (2, 29)
      else let d = (if leap \<and> yday > 59 then yday - 1 else yday);
               m = d div 31
           in if d \<ge> daysBefore ! (m + 1) then (m + 2, d - daysBefore ! (m + 1) + 1)
              else (m + 1, d - daysBefore ! m + 1))"

definition yday_of :: "bool \<Rightarrow> nat \<Rightarrow> nat \<Rightarrow> nat" where
  "yday_of leap m d = daysBefore ! (m - 1) + (if leap \<and> m \<ge> 3 then 1 else 0) + d - 1"

definition days_before_year :: "int \<Rightarrow> int" where
  "days_before_year y = 365 * (y - 1) + (y - 1) div 4 - (y - 1) div 100 + (y - 1) div 400"

definition daysIn :: "int \<Rightarrow> nat \<Rightarrow> nat" where
  "daysIn y m = (if m = 2 \<and> isLeap y then 29 else daysBefore ! m - daysBefore ! (m - 1))"

lemma days_before_year_split:
  assumes "0 \<le> b" "b \<le> 3" "0 \<le> c" "c \<le> 24" "0 \<le> e" "e \<le> 3"
  shows "days_before_year (400 * a + 100 * b + 4 * c + e + 1) =
         146097 * a + 36524 * b + 1461 * c + 365 * e"
proof -
  have "(400 * a + 100 * b + 4 * c + e) div 4 = 100 * a + 25 * b + c"
    using assms(5,6) by linarith
  moreover have "(400 * a + 100 * b + 4 * c + e) div 100 = 4 * a + b"
    using assms(3-6) by linarith
  moreover have "(400 * a + 100 * b + 4 * c + e) div 400 = a"
    using assms by linarith
  ultimately show ?thesis by (simp add: days_before_year_def)
qed

lemma mod_shift_eq_0_iff:
  fixes k q x :: int
  assumes "0 \<le> x" "x < k"
  shows "(k * q + x + 1) mod k = 0 \<longleftrightarrow> x = k - 1"
proof -
  have "(k * q + x + 1) mod k = (x + 1 + k * q) mod k" by (simp add: ac_simps)
  also have "\<dots> = (x + 1) mod k" by simp
  also have "\<dots> = 0 \<longleftrightarrow> x = k - 1"
    using assms by (cases "x = k - 1") auto
  finally show ?thesis .
qed

lemma isLeap_split:
  assumes "0 \<le> b" "b \<le> 3" "0 \<le> c" "c \<le> 24" "0 \<le> e" "e \<le> 3"
  shows "isLeap (400 * a + 100 * b + 4 * c + e + 1) \<longleftrightarrow> e = 3 \<and> (c < 24 \<or> b = 3)"
proof -
  let ?y = "400 * a + 100 * b + 4 * c + e + 1"
  have "?y mod 4 = 0 \<longleftrightarrow> e = 3"
    using mod_shift_eq_0_iff [of e 4 "100 * a + 25 * b + c"] assms by (simp add: algebra_simps)
  moreover have "?y mod 100 = 0 \<longleftrightarrow> 4 * c + e = 99"
    using mod_shift_eq_0_iff [of "4 * c + e" 100 "4 * a + b"] assms by (simp add: algebra_simps)
  moreover have "?y mod 400 = 0 \<longleftrightarrow> 100 * b + 4 * c + e = 399"
    using mod_shift_eq_0_iff [of "100 * b + 4 * c + e" 400 a] assms by (simp add: algebra_simps)
  ultimately show ?thesis using assms unfolding isLeap_def by auto
qed

text \<open>The step the calendar takes twice: a quotient capped so that the last unit may be longer.\<close>

lemma capped_div:
  fixes r k :: int
  assumes "0 \<le> r" "r \<le> 4 * k" "0 < k" and b: "b = r div k - r div k div 4"
  shows "0 \<le> b" "b \<le> 3" "0 \<le> r - k * b" "r - k * b \<le> k" "b < 3 \<Longrightarrow> r - k * b < k"
proof -
  define q where "q = r div k"
  have r: "r = k * q + r mod k" and m: "0 \<le> r mod k" "r mod k < k"
    using assms(3) by (simp_all add: q_def)
  have q0: "0 \<le> q" using assms(1,3) by (simp add: q_def pos_imp_zdiv_nonneg_iff)
  have q4: "q \<le> 4"
  proof (rule ccontr)
    assume "\<not> q \<le> 4"
    then have "k * 5 \<le> k * q" using assms(3) by (intro mult_left_mono) auto
    with r m assms(2,3) show False by linarith
  qed
  define m where "m = r mod k"
  have r': "r = k * q + m" "0 \<le> m" "m < k" using r m by (simp_all add: m_def)
  consider "q = 4" "b = 3" "r = 4 * k" | "q < 4" "b = q"
    using q0 q4 r' assms(2) by (force simp: b q_def [symmetric])
  then have "0 \<le> b \<and> b \<le> 3 \<and> 0 \<le> r - k * b \<and> r - k * b \<le> k \<and> (b < 3 \<longrightarrow> r - k * b < k)"
    by cases (use q0 r' assms(3) in simp_all)
  then show "0 \<le> b" "b \<le> 3" "0 \<le> r - k * b" "r - k * b \<le> k" "b < 3 \<Longrightarrow> r - k * b < k"
    by blast+
qed

lemma year_yday_inverse:
  assumes "year_yday n = (y, yd)"
  shows "days_before_year y + int yd = n" and "yd < (if isLeap y then 366 else 365)"
proof -
  define a where "a = n div 146097"
  define r where "r = n mod 146097"
  define b where "b = r div 36524 - r div 36524 div 4"
  define r2 where "r2 = r - 36524 * b"
  define c where "c = r2 div 1461"
  define r3 where "r3 = r2 - 1461 * c"
  define e where "e = r3 div 365 - r3 div 365 div 4"
  have y: "y = 400 * a + 100 * b + 4 * c + e + 1" and yd: "yd = nat (r3 - 365 * e)"
    using assms
    by (simp_all only: year_yday_def Let_def prod.inject flip: a_def r_def b_def r2_def c_def
        r3_def e_def)
  have r: "0 \<le> r" "r < 146097" "n = 146097 * a + r" by (simp_all add: r_def a_def)
  note capb = capped_div [of r 36524 b]
  have b: "0 \<le> b" "b \<le> 3" "0 \<le> r2" "r2 \<le> 36524" "b < 3 \<Longrightarrow> r2 < 36524"
    unfolding r2_def by (rule capb; use r(1,2) b_def in simp)+
  have c1: "1461 * c \<le> r2" "r2 < 1461 * c + 1461"
    using mult_div_mod_eq [of 1461 r2] pos_mod_sign [of 1461 r2] pos_mod_bound [of 1461 r2]
    by (simp_all add: c_def)
  have "0 \<le> c" and "c \<le> 24" using b(3,4) c1 by linarith+
  moreover have "0 \<le> r3" and "r3 \<le> 1460" using c1 by (simp_all add: r3_def)
  moreover have "b < 3 \<Longrightarrow> c = 24 \<Longrightarrow> r3 < 1460" using b(5) by (simp add: r3_def)
  ultimately have c: "0 \<le> c" "c \<le> 24" "0 \<le> r3" "r3 \<le> 1460" "b < 3 \<Longrightarrow> c = 24 \<Longrightarrow> r3 < 1460"
    by simp_all
  note cape = capped_div [of r3 365 e]
  have e: "0 \<le> e" "e \<le> 3" "0 \<le> r3 - 365 * e" "r3 - 365 * e \<le> 365"
    "e < 3 \<Longrightarrow> r3 - 365 * e < 365"
    by (rule cape; use c(3,4) e_def in simp)+
  have yd': "int yd = r3 - 365 * e" using yd e by simp
  show "days_before_year y + int yd = n"
    using days_before_year_split [OF b(1,2) c(1,2) e(1,2)] y yd' r(3) by (simp add: r2_def r3_def)
  show "yd < (if isLeap y then 366 else 365)"
  proof (cases "isLeap y")
    case True
    then show ?thesis using yd' e(4) by simp
  next
    case False
    then consider "e < 3" | "e = 3" "c = 24" "b < 3"
      using isLeap_split [OF b(1,2) c(1,2) e(1,2)] y c(2) b(2) e(2) by force
    then have "r3 - 365 * e < 365"
      by cases (use e(5) c(5) in auto)
    with False yd' show ?thesis by simp
  qed
qed

lemma daysIn_cong: "isLeap y = isLeap y' \<Longrightarrow> daysIn y m = daysIn y' m"
  by (simp add: daysIn_def)

lemma less_12_cases:
  fixes q :: nat
  assumes "q < 12"
  shows "q = 0 \<or> q = 1 \<or> q = 2 \<or> q = 3 \<or> q = 4 \<or> q = 5 \<or> q = 6 \<or> q = 7 \<or>
         q = 8 \<or> q = 9 \<or> q = 10 \<or> q = 11"
  using assms by presburger

lemma month_day_common:
  assumes "yd < 365" and md: "month_day False yd = (m, d)"
  shows "1 \<le> m \<and> m \<le> 12 \<and> 1 \<le> d \<and> d \<le> daysBefore ! m - daysBefore ! (m - 1) \<and>
         daysBefore ! (m - 1) + d - 1 = yd"
proof -
  define q where "q = yd div 31"
  have q: "31 * q \<le> yd" "yd < 31 * q + 31" by (simp_all add: q_def)
  have "month_day False yd = (if daysBefore ! (q + 1) \<le> yd
                       then (q + 2, yd - daysBefore ! (q + 1) + 1)
                       else (q + 1, yd - daysBefore ! q + 1))"
    unfolding month_day_def Let_def q_def by simp
  note md' = this [unfolded md]
  have "q < 12" using q assms(1) by linarith
  then show ?thesis
    by (rule less_12_cases [THEN disjE]; (elim disjE)?)
      (use q md' assms(1) in \<open>simp add: daysBefore_def split: if_splits; fail\<close>)+
qed

lemma month_day_inverse:
  assumes yd: "yd < (if isLeap y then 366 else 365)" and md: "month_day (isLeap y) yd = (m, d)"
  shows "1 \<le> m" "m \<le> 12" "1 \<le> d" "d \<le> daysIn y m" "yday_of (isLeap y) m d = yd"
proof -
  have "1 \<le> m \<and> m \<le> 12 \<and> 1 \<le> d \<and> d \<le> daysIn y m \<and> yday_of (isLeap y) m d = yd"
  proof (cases "isLeap y \<and> yd = 59")
    case True
    then have "m = 2 \<and> d = 29" using md by (simp add: month_day_def)
    with True show ?thesis by (simp add: daysIn_def yday_of_def daysBefore_def)
  next
    case no29: False
    define yd' where "yd' = (if isLeap y \<and> 59 < yd then yd - 1 else yd)"
    have lt: "yd' < 365" using yd by (auto simp: yd'_def)
    have "month_day False yd' = (m, d)"
      using md no29 unfolding month_day_def yd'_def by simp
    note c = month_day_common [OF lt this]
    obtain q where q: "m = Suc q" "q < 12" using c by (cases m) auto
    have mono: "daysBefore ! Suc 0 = 31" "daysBefore ! 2 = 59"
      by (simp_all add: daysBefore_def)
    have mono': "(m \<ge> 3 \<longrightarrow> 59 \<le> daysBefore ! (m - 1)) \<and> (m \<le> 2 \<longrightarrow> daysBefore ! m \<le> 59) \<and>
      daysBefore ! (m - 1) \<le> daysBefore ! m"
      using less_12_cases [OF q(2)] unfolding q(1)
      by (elim disjE) (simp_all add: daysBefore_def)
    note mono = mono mono'
    have "yd' \<ge> 59 \<longleftrightarrow> m \<ge> 3" using c mono by (cases "m \<ge> 3") auto
    with c no29 yd mono show ?thesis
      by (auto simp: yd'_def yday_of_def daysIn_def split: if_splits)
  qed
  then show "1 \<le> m" "m \<le> 12" "1 \<le> d" "d \<le> daysIn y m" "yday_of (isLeap y) m d = yd" by blast+
qed

section \<open>RFC 3339 text\<close>

text \<open>Decimal with a fixed number of digits.\<close>

fun fixed_dec :: "nat \<Rightarrow> nat \<Rightarrow> gostring" where
  "fixed_dec 0 n = []"
| "fixed_dec (Suc k) n = fixed_dec k (n div 10) @ [digit (n mod 10)]"

lemma length_fixed_dec [simp]: "length (fixed_dec k n) = k"
  by (induction k n rule: fixed_dec.induct) auto

lemma fixed_dec_Nil_iff [simp]: "fixed_dec k n = [] \<longleftrightarrow> k = 0"
  by (metis length_0_conv length_fixed_dec)

lemma digits_fixed_dec [simp]: "list_all is_digit (fixed_dec k n)"
  by (induction k n rule: fixed_dec.induct) auto

lemma undec_from_fixed_dec: "n < 10 ^ k \<Longrightarrow> undec_from 0 (fixed_dec k n) = n"
proof (induction k n rule: fixed_dec.induct)
  case (2 k n)
  then have "n div 10 < 10 ^ k" by (simp add: less_mult_imp_div_less)
  with 2 show ?case by (simp add: undec_from_append)
qed (simp add: undec_from_def)

lemma undec_fixed_dec: "n < 10 ^ k \<Longrightarrow> 0 < k \<Longrightarrow> undec (fixed_dec k n) = Some n"
  by (cases k) (auto simp: undec_def undec_from_fixed_dec simp del: fixed_dec.simps(2))

definition parseUint :: "gostring \<Rightarrow> nat \<Rightarrow> nat \<Rightarrow> nat option" where
  "parseUint s lo hi =
     (case undec s of None \<Rightarrow> None | Some n \<Rightarrow> if lo \<le> n \<and> n \<le> hi then Some n else None)"

lemma parseUint_fixed_dec:
  "n < 10 ^ k \<Longrightarrow> 0 < k \<Longrightarrow> lo \<le> n \<Longrightarrow> n \<le> hi \<Longrightarrow> parseUint (fixed_dec k n) lo hi = Some n"
  by (simp add: parseUint_def undec_fixed_dec)

text \<open>Seconds since the year 1, the civil date and the second of the day of a time.\<close>

definition abs_sec :: "gotime \<Rightarrow> int" where
  "abs_sec t = sint (Unix t) + 62135596800"

definition Date :: "gotime \<Rightarrow> int \<times> nat \<times> nat" where
  "Date t = (case year_yday (abs_sec t div 86400) of (y, yd) \<Rightarrow>
               (case month_day (isLeap y) yd of (m, d) \<Rightarrow> (y, m, d)))"

definition Year :: "gotime \<Rightarrow> int" where
  "Year t = fst (Date t)"

definition sec_of_day :: "gotime \<Rightarrow> nat" where
  "sec_of_day t = nat (abs_sec t mod 86400)"

text \<open>The fraction of \<^verbatim>\<open>time.RFC3339Nano\<close>: nine digits without the trailing zeros.\<close>

definition strip_zeros :: "gostring \<Rightarrow> gostring" where
  "strip_zeros s = rev (dropWhile (\<lambda>c. c = CHR ''0'') (rev s))"

definition format_frac :: "nat \<Rightarrow> gostring" where
  "format_frac ns = (if ns = 0 then [] else CHR ''.'' # strip_zeros (fixed_dec 9 ns))"

definition format_rfc3339 :: "gotime \<Rightarrow> gostring" where
  "format_rfc3339 t =
     (case Date t of (y, m, d) \<Rightarrow>
        fixed_dec 4 (nat y) @ ''-'' @ fixed_dec 2 m @ ''-'' @ fixed_dec 2 d @ ''T'' @
        fixed_dec 2 (sec_of_day t div 3600) @ '':'' @
        fixed_dec 2 (sec_of_day t mod 3600 div 60) @ '':'' @
        fixed_dec 2 (sec_of_day t mod 60) @ format_frac (t_nsec t) @ ''Z'')"

text \<open>\<^verbatim>\<open>Time.MarshalJSON\<close>: an error for a year that has no four-digit form.\<close>

definition time_MarshalJSON :: "gotime \<Rightarrow> gostring option" where
  "time_MarshalJSON t =
     (if Year t < 0 \<or> Year t \<ge> 10000 then None else Some (format_rfc3339 t))"

definition parse_frac :: "gostring \<Rightarrow> nat \<times> gostring" where
  "parse_frac s =
     (if length s \<ge> 2 \<and> s ! 0 = CHR ''.'' \<and> is_digit (s ! 1)
      then let ds = takeWhile is_digit (tl s)
           in (undec_from 0 (take 9 (ds @ replicate 9 (CHR ''0''))), dropWhile is_digit (tl s))
      else (0, s))"

text \<open>The offset of a zone suffix in seconds.\<close>

definition parse_zone :: "gostring \<Rightarrow> int option" where
  "parse_zone s =
     (if s = ''Z'' then Some 0
      else if length s = 6 \<and> (s ! 0 = CHR ''+'' \<or> s ! 0 = CHR ''-'') \<and> s ! 3 = CHR '':''
      then (case (parseUint (take 2 (drop 1 s)) 0 23, parseUint (drop 4 s) 0 59) of
              (Some h, Some m) \<Rightarrow>
                Some ((if s ! 0 = CHR ''-'' then -1 else 1) * int ((h * 60 + m) * 60))
            | _ \<Rightarrow> None)
      else None)"

text \<open>\<^verbatim>\<open>Time.UnmarshalJSON\<close> on the text between the quotes.\<close>

definition time_UnmarshalJSON :: "gostring \<Rightarrow> gotime option" where
  "time_UnmarshalJSON s =
     (if length s < 19 \<or> s ! 4 \<noteq> CHR ''-'' \<or> s ! 7 \<noteq> CHR ''-'' \<or> s ! 10 \<noteq> CHR ''T'' \<or>
         s ! 13 \<noteq> CHR '':'' \<or> s ! 16 \<noteq> CHR '':'' then None
      else
       (case (parseUint (take 4 s) 0 9999, parseUint (take 2 (drop 5 s)) 1 12) of
          (Some y, Some m) \<Rightarrow>
            (case (parseUint (take 2 (drop 8 s)) 1 (daysIn (int y) m),
                   parseUint (take 2 (drop 11 s)) 0 23, parseUint (take 2 (drop 14 s)) 0 59,
                   parseUint (take 2 (drop 17 s)) 0 59) of
               (Some d, Some h, Some mi, Some sc) \<Rightarrow>
                 (case parse_frac (drop 19 s) of (ns, z) \<Rightarrow>
                    (case parse_zone z of
                       None \<Rightarrow> None
                     | Some off \<Rightarrow>
                         Some \<lparr>t_sec = word_of_int
                                 ((days_before_year (int y) + int (yday_of (isLeap (int y)) m d)) * 86400
                                  + int (h * 3600 + mi * 60 + sc) - off),
                               t_nsec = ns, t_mono = None\<rparr>))
             | _ \<Rightarrow> None)
        | _ \<Rightarrow> None))"

lemma strip_zeros_pad: "\<exists>k. s = strip_zeros s @ replicate k (CHR ''0'')"
proof -
  have "\<exists>k. s = replicate k (CHR ''0'') @ dropWhile (\<lambda>c. c = CHR ''0'') s" for s
  proof (induction s)
    case (Cons a s)
    then obtain k where "s = replicate k (CHR ''0'') @ dropWhile (\<lambda>c. c = CHR ''0'') s" ..
    then show ?case
      by (cases "a = CHR ''0''") (auto intro: exI [of _ "Suc k"] exI [of _ 0])
  qed simp
  from this [of "rev s"] obtain k where
    "rev s = replicate k (CHR ''0'') @ dropWhile (\<lambda>c. c = CHR ''0'') (rev s)" ..
  then have "s = rev (replicate k (CHR ''0'') @ dropWhile (\<lambda>c. c = CHR ''0'') (rev s))"
    by (metis rev_rev_ident)
  then show ?thesis by (auto simp: strip_zeros_def)
qed

lemma parse_format_frac:
  assumes "ns < 1000000000" and z: "z \<noteq> []" "\<not> is_digit (hd z)" "hd z \<noteq> CHR ''.''"
  shows "parse_frac (format_frac ns @ z) = (ns, z)"
proof (cases "ns = 0")
  case True
  with z show ?thesis by (cases z) (simp_all add: format_frac_def parse_frac_def)
next
  case False
  obtain k where k: "fixed_dec 9 ns = strip_zeros (fixed_dec 9 ns) @ replicate k (CHR ''0'')"
    using strip_zeros_pad by blast
  define ds where "ds = strip_zeros (fixed_dec 9 ns)"
  have len: "length ds + k = 9" using arg_cong [OF k, of length] by (simp add: ds_def)
  have dig: "list_all is_digit ds"
    using digits_fixed_dec [of 9 ns] by (subst (asm) k) (simp add: ds_def)
  have val: "undec_from 0 (fixed_dec 9 ns) = ns" using assms(1) by (simp add: undec_from_fixed_dec)
  have "ds \<noteq> []"
  proof
    assume "ds = []"
    then have eq: "fixed_dec 9 ns = replicate k (CHR ''0'')" using k by (simp add: ds_def)
    have "undec_from 0 (replicate k (CHR ''0'')) = 0"
      by (induction k) (simp_all add: undec_from_def digit_val_def)
    with eq val False show False by simp
  qed
  then obtain c ds' where ds: "ds = c # ds'" by (cases ds) auto
  have "take 9 (ds @ replicate 9 (CHR ''0'')) = fixed_dec 9 ns"
  proof -
    have "replicate 9 (CHR ''0'') = replicate k (CHR ''0'') @ replicate (9 - k) (CHR ''0'')"
      using len by (simp flip: replicate_add)
    then have "take 9 (ds @ replicate 9 (CHR ''0'')) = take 9 ((ds @ replicate k (CHR ''0'')) @ replicate (9 - k) (CHR ''0''))"
      by simp
    also have "\<dots> = ds @ replicate k (CHR ''0'')" using len by simp
    finally show ?thesis using k by (simp add: ds_def)
  qed
  moreover have "takeWhile is_digit (ds @ z) = ds" "dropWhile is_digit (ds @ z) = z"
    using dig z by (cases z; simp add: list_all_iff takeWhile_append dropWhile_append3)+
  moreover have "format_frac ns = CHR ''.'' # ds" using False by (simp add: format_frac_def ds_def)
  ultimately show ?thesis
    using val ds dig by (simp add: parse_frac_def Let_def)
qed

text \<open>
  The text of a time parses back to the same wall clock.  The fields of the fixed layout sit at
  the offsets the parser reads.
\<close>

lemma rfc3339_layout:
  assumes "length Y = 4" "length M = 2" "length D = 2" "length h = 2" "length mi = 2" "length sc = 2"
    and s: "s = Y @ ''-'' @ M @ ''-'' @ D @ ''T'' @ h @ '':'' @ mi @ '':'' @ sc @ r"
  shows "\<not> length s < 19" "s ! 4 = CHR ''-''" "s ! 7 = CHR ''-''" "s ! 10 = CHR ''T''"
    "s ! 13 = CHR '':''" "s ! 16 = CHR '':''"
    "take 4 s = Y" "take 2 (drop 5 s) = M" "take 2 (drop 8 s) = D" "take 2 (drop 11 s) = h"
    "take 2 (drop 14 s) = mi" "take 2 (drop 17 s) = sc" "drop 19 s = r"
  using assms(1-6) by (auto simp: s nth_append)

lemma Date_bounds:
  assumes "Date t = (y, m, d)"
  shows "1 \<le> m" "m \<le> 12" "1 \<le> d" "d \<le> daysIn y m" "d \<le> 31"
    "days_before_year y + int (yday_of (isLeap y) m d) = abs_sec t div 86400"
proof -
  obtain yd where yy: "year_yday (abs_sec t div 86400) = (y, yd)"
    and md: "month_day (isLeap y) yd = (m, d)"
    using assms by (auto simp: Date_def split: prod.splits)
  note mdi = month_day_inverse [OF year_yday_inverse(2) [OF yy] md]
  show "1 \<le> m" "m \<le> 12" "1 \<le> d" "d \<le> daysIn y m" by (rule mdi)+
  show "days_before_year y + int (yday_of (isLeap y) m d) = abs_sec t div 86400"
    using year_yday_inverse(1) [OF yy] mdi(5) by simp
  obtain q where q: "m = Suc q" "q < 12" using mdi(1,2) by (cases m) auto
  have "daysIn y m \<le> 31"
    using less_12_cases [OF q(2)] unfolding q(1)
    by (elim disjE) (simp_all add: daysIn_def daysBefore_def)
  then show "d \<le> 31" using mdi(4) by simp
qed

lemma t_sec_abs_sec: "word_of_int (abs_sec t) = t_sec t"
proof -
  have "(word_of_int (abs_sec t) :: int64) = word_of_int (sint (Unix t)) + 62135596800"
    by (simp add: abs_sec_def)
  then show ?thesis by (simp add: Unix_def unixToInternal_def)
qed

lemma time_json_roundtrip:
  assumes fmt: "time_MarshalJSON t = Some s" and ns: "t_nsec t < 1000000000"
  shows "time_UnmarshalJSON s = Some (t\<lparr>t_mono := None\<rparr>)"
proof -
  obtain y m d where date: "Date t = (y, m, d)" by (cases "Date t") auto
  have y: "0 \<le> y" "y < 10000" and s: "s = format_rfc3339 t"
    using fmt date by (auto simp: time_MarshalJSON_def Year_def split: if_splits)
  note db = Date_bounds [OF date]
  define sd where "sd = sec_of_day t"
  have sd: "sd < 86400" "int sd = abs_sec t mod 86400"
    by (simp_all add: sd_def sec_of_day_def nat_less_iff)
  have sd3: "sd div 3600 * 3600 + sd mod 3600 div 60 * 60 + sd mod 60 = sd"
  proof -
    have "sd mod 3600 div 60 * 60 + sd mod 3600 mod 60 = sd mod 3600" by simp
    moreover have "sd mod 3600 mod 60 = sd mod 60" by (simp add: mod_mod_cancel)
    ultimately show ?thesis by (metis add.assoc div_mult_mod_eq)
  qed
  have fields:
    "parseUint (fixed_dec 4 (nat y)) 0 9999 = Some (nat y)"
    "parseUint (fixed_dec 2 m) (Suc 0) 12 = Some m"
    "parseUint (fixed_dec 2 d) (Suc 0) (daysIn y m) = Some d"
    "parseUint (fixed_dec 2 (sd div 3600)) 0 23 = Some (sd div 3600)"
    "parseUint (fixed_dec 2 (sd mod 3600 div 60)) 0 59 = Some (sd mod 3600 div 60)"
    "parseUint (fixed_dec 2 (sd mod 60)) 0 59 = Some (sd mod 60)"
    using y db sd(1) by (auto intro!: parseUint_fixed_dec simp: nat_less_iff less_mult_imp_div_less)
  have frac: "parse_frac (format_frac (t_nsec t) @ ''Z'') = (t_nsec t, ''Z'')"
    by (rule parse_format_frac) (use ns in \<open>simp_all add: is_digit_def\<close>)
  have total: "(days_before_year y + int (yday_of (isLeap y) m d)) * 86400 +
      int (sd div 3600 * 3600 + sd mod 3600 div 60 * 60 + sd mod 60) = abs_sec t"
    using db(6) sd(2) unfolding sd3 by simp
  have s': "s = fixed_dec 4 (nat y) @ ''-'' @ fixed_dec 2 m @ ''-'' @ fixed_dec 2 d @ ''T'' @
      fixed_dec 2 (sd div 3600) @ '':'' @ fixed_dec 2 (sd mod 3600 div 60) @ '':'' @
      fixed_dec 2 (sd mod 60) @ format_frac (t_nsec t) @ ''Z''"
    by (simp add: s format_rfc3339_def date sd_def)
  note layout = rfc3339_layout [OF length_fixed_dec length_fixed_dec length_fixed_dec
      length_fixed_dec length_fixed_dec length_fixed_dec s']
  have "time_UnmarshalJSON s =
    Some \<lparr>t_sec = word_of_int ((days_before_year y + int (yday_of (isLeap y) m d)) * 86400 +
            int (sd div 3600 * 3600 + sd mod 3600 div 60 * 60 + sd mod 60) - 0),
          t_nsec = t_nsec t, t_mono = None\<rparr>"
    unfolding time_UnmarshalJSON_def
    using fields frac y by (simp add: parse_zone_def layout)
  then show ?thesis unfolding total by (simp add: t_sec_abs_sec)
qed

lemma time_MarshalJSON_None_iff: "time_MarshalJSON t = None \<longleftrightarrow> \<not> (0 \<le> Year t \<and> Year t < 10000)"
  by (auto simp: time_MarshalJSON_def)

end
