(* ===== verification/Json.thy ===== *)
theory Json
  imports GoTime
begin

text \<open>
  The part of \<^verbatim>\<open>encoding/json\<close> the program relies on, at the level of JSON values: what a struct
  marshals to, and how \<^verbatim>\<open>Unmarshal\<close> fills the fields of a struct from an object (keys matched
  without regard to case, unknown keys skipped, null a no-op, later members over earlier ones, a
  value of the wrong kind or a number out of range an error).  The concrete text of a value
  (white space, escapes, key quoting) is below this level.
\<close>

text \<open>A number carries its literal, as the decoder keeps it until the target's type is known.\<close>

datatype json =
  JNull | JBool bool | JNum gostring | JStr gostring | JArr "json list" |
  JObj "(gostring \<times> json) list"

section \<open>Strings: ill-formed UTF-8 becomes U+FFFD\<close>

definition code :: "char \<Rightarrow> nat" where
  "code c = of_char c"

definition in_range :: "nat \<Rightarrow> nat \<Rightarrow> char \<Rightarrow> bool" where
  "in_range lo hi c \<longleftrightarrow> lo \<le> code c \<and> code c \<le> hi"

text \<open>Length of the well-formed rune a string starts with, 0 if there is none.\<close>

definition rune_len :: "gostring \<Rightarrow> nat" where
  "rune_len s =
     (case s of
        [] \<Rightarrow> 0
      | a # r \<Rightarrow>
          (let ok = (\<lambda>i lo hi. i < length r \<and> in_range lo hi (r ! i)) in
           if code a < 128 then 1
           else if in_range 194 223 a then (if ok 0 128 191 then 2 else 0)
           else if in_range 224 239 a then
             (if ok 0 (if code a = 224 then 160 else 128) (if code a = 237 then 159 else 191) \<and>
                 ok 1 128 191 then 3 else 0)
           else if in_range 240 244 a then
             (if ok 0 (if code a = 240 then 144 else 128) (if code a = 244 then 143 else 191) \<and>
                 ok 1 128 191 \<and> ok 2 128 191 then 4 else 0)
           else 0))"

function utf8_coerce :: "gostring \<Rightarrow> gostring" where
  "utf8_coerce s =
     (if s = [] then []
      else if rune_len s = 0 then [CHR 0xEF, CHR 0xBF, CHR 0xBD] @ utf8_coerce (tl s)
      else take (rune_len s) s @ utf8_coerce (drop (rune_len s) s))"
  by pat_completeness auto
termination
  by (relation "measure length") auto

declare utf8_coerce.simps [simp del]

text \<open>A string every byte of which belongs to a well-formed rune.\<close>

definition valid_utf8 :: "gostring \<Rightarrow> bool" where
  "valid_utf8 s \<longleftrightarrow> utf8_coerce s = s"

lemma utf8_coerce_ascii: "list_all (\<lambda>c. code c < 128) s \<Longrightarrow> utf8_coerce s = s"
  by (induction s) (simp_all add: utf8_coerce.simps rune_len_def)

lemma valid_utf8_ascii: "list_all (\<lambda>c. code c < 128) s \<Longrightarrow> valid_utf8 s"
  by (simp add: valid_utf8_def utf8_coerce_ascii)

section \<open>Marshalling scalars\<close>

definition json_of_string :: "gostring \<Rightarrow> json" where
  "json_of_string s = JStr (utf8_coerce s)"

definition json_of_uint32 :: "uint32 \<Rightarrow> json" where
  "json_of_uint32 w = JNum (FormatUint (unat w))"

definition json_of_time :: "gotime \<Rightarrow> json option" where
  "json_of_time t = map_option JStr (time_MarshalJSON t)"

section \<open>Unmarshalling into a value\<close>

text \<open>
  A decoder takes the value already in the target (which a null or a missing member leaves
  alone) and returns the new one, or \<open>None\<close> for an error.
\<close>

type_synonym 'a decoder = "'a \<Rightarrow> json \<Rightarrow> 'a option"

fun json_string :: "gostring decoder" where
  "json_string old JNull = Some old"
| "json_string old (JStr s) = Some s"
| "json_string old _ = None"

fun json_uint32 :: "uint32 decoder" where
  "json_uint32 old JNull = Some old"
| "json_uint32 old (JNum lit) =
     (case undec lit of
        None \<Rightarrow> None
      | Some n \<Rightarrow> if n < 2 ^ 32 then Some (word_of_nat n) else None)"
| "json_uint32 old _ = None"

fun json_int :: "int decoder" where
  "json_int old JNull = Some old"
| "json_int old (JNum lit) = Atoi lit"
| "json_int old _ = None"

fun json_time :: "gotime decoder" where
  "json_time old JNull = Some old"
| "json_time old (JStr s) = time_UnmarshalJSON s"
| "json_time old _ = None"

text \<open>A slice is filled element by element, over the elements already there.\<close>

fun json_elems :: "'a decoder \<Rightarrow> 'a \<Rightarrow> 'a list \<Rightarrow> json list \<Rightarrow> 'a list option" where
  "json_elems dec zero old [] = Some []"
| "json_elems dec zero old (v # vs) =
     (case dec (case old of [] \<Rightarrow> zero | x # _ \<Rightarrow> x) v of
        None \<Rightarrow> None
      | Some y \<Rightarrow>
          (case json_elems dec zero (tl old) vs of None \<Rightarrow> None | Some ys \<Rightarrow> Some (y # ys)))"

fun json_slice :: "'a decoder \<Rightarrow> 'a \<Rightarrow> 'a list decoder" where
  "json_slice dec zero old JNull = Some []"
| "json_slice dec zero old (JArr vs) = json_elems dec zero old vs"
| "json_slice dec zero old _ = None"

text \<open>
  Keys are compared after folding: ASCII letters to lower case, and the two non-ASCII letters
  whose simple folding is an ASCII letter (long s and the Kelvin sign).
\<close>

definition lower :: "char \<Rightarrow> char" where
  "lower c = (if in_range 65 90 c then char_of (code c + 32) else c)"

fun fold_key :: "gostring \<Rightarrow> gostring" where
  "fold_key [] = []"
| "fold_key (a # s) =
     (if code a = 0xC5 \<and> s \<noteq> [] \<and> code (hd s) = 0xBF then CHR ''s'' # fold_key (tl s)
      else if code a = 0xE2 \<and> length s \<ge> 2 \<and> code (s ! 0) = 0x84 \<and> code (s ! 1) = 0xAA
      then CHR ''k'' # fold_key (drop 2 s)
      else lower a # fold_key s)"

declare fold_key.simps [simp del]

text \<open>The members of an object that set the field \<open>name\<close>, applied in order.\<close>

fun json_field :: "'a decoder \<Rightarrow> gostring \<Rightarrow> 'a \<Rightarrow> (gostring \<times> json) list \<Rightarrow> 'a option" where
  "json_field dec name old [] = Some old"
| "json_field dec name old ((k, v) # ms) =
     (if fold_key k = name
      then (case dec old v of None \<Rightarrow> None | Some y \<Rightarrow> json_field dec name y ms)
      else json_field dec name old ms)"

text \<open>The members of a JSON value unmarshalled into a struct; null leaves the struct alone.\<close>

fun json_members :: "json \<Rightarrow> (gostring \<times> json) list option" where
  "json_members (JObj ms) = Some ms"
| "json_members JNull = Some []"
| "json_members _ = None"

section \<open>Round trips of the scalars\<close>

lemma json_string_of_string [simp]: "json_string old (json_of_string s) = Some (utf8_coerce s)"
  by (simp add: json_of_string_def)

lemma json_uint32_of_uint32 [simp]: "json_uint32 old (json_of_uint32 w) = Some w"
  using unat_less_2p [of w] by (simp add: json_of_uint32_def FormatUint_def)

lemma json_int_of_uint32 [simp]: "json_int old (json_of_uint32 w) = Some (uint w)"
proof -
  have "uint w < 2 ^ 32" "0 \<le> uint w" using uint_lt2p [of w] by simp_all
  then have "- (2 ^ 63) \<le> int (unat w)" "int (unat w) < 2 ^ 63"
    by (simp_all add: order_trans [of "- 9223372036854775808" 0])
  then have "Atoi (FormatInt (int (unat w))) = Some (int (unat w))"
    by (rule Atoi_FormatInt)
  then show ?thesis by (simp add: json_of_uint32_def FormatUint_def FormatInt_def)
qed

lemma json_time_of_time:
  "json_of_time t = Some j \<Longrightarrow> t_nsec t < 1000000000 \<Longrightarrow> json_time old j = Some (t\<lparr>t_mono := None\<rparr>)"
  by (auto simp: json_of_time_def time_json_roundtrip)

end
