(* ===== verification/Entities.thy ===== *)
theory Entities
  imports Json
begin

text \<open>
  The two entities of the network (\<^verbatim>\<open>entities/entities.go\<close>), their zero values, and their JSON
  form as the struct tags define it.
\<close>

record Offer =
  o_Multiaddr :: gostring
  o_Capacity :: uint32
  o_Timestamp :: gotime
  o_Signature :: gostring

record Contract =
  c_OwnerID :: gostring
  c_Size :: uint32
  c_Cid :: gostring
  c_Expires :: gotime
  c_Cardinality :: uint32
  c_Datatype :: uint32

definition zero_Offer :: Offer where
  "zero_Offer = \<lparr>o_Multiaddr = [], o_Capacity = 0, o_Timestamp = zero_time, o_Signature = []\<rparr>"

definition zero_Contract :: Contract where
  "zero_Contract = \<lparr>c_OwnerID = [], c_Size = 0, c_Cid = [], c_Expires = zero_time,
     c_Cardinality = 0, c_Datatype = 0\<rparr>"

definition json_of_Contract :: "Contract \<Rightarrow> json option" where
  "json_of_Contract c =
     (case json_of_time (c_Expires c) of
        None \<Rightarrow> None
      | Some e \<Rightarrow> Some (JObj
          [(''owner_id'', json_of_string (c_OwnerID c)), (''size'', json_of_uint32 (c_Size c)),
           (''cid'', json_of_string (c_Cid c)), (''expires'', e),
           (''cardinality'', json_of_uint32 (c_Cardinality c)),
           (''datatype'', json_of_uint32 (c_Datatype c))]))"

definition json_of_Offer :: "Offer \<Rightarrow> json option" where
  "json_of_Offer x =
     (case json_of_time (o_Timestamp x) of
        None \<Rightarrow> None
      | Some t \<Rightarrow> Some (JObj
          [(''multiaddr'', json_of_string (o_Multiaddr x)),
           (''capacity'', json_of_uint32 (o_Capacity x)), (''timestamp'', t),
           (''signature'', json_of_string (o_Signature x))]))"

text \<open>A slice marshals only if every element does.\<close>

fun json_all :: "('a \<Rightarrow> json option) \<Rightarrow> 'a list \<Rightarrow> json list option" where
  "json_all f [] = Some []"
| "json_all f (x # xs) =
     (case f x of
        None \<Rightarrow> None
      | Some j \<Rightarrow> (case json_all f xs of None \<Rightarrow> None | Some js \<Rightarrow> Some (j # js)))"

definition json_of_Contracts :: "Contract list \<Rightarrow> json option" where
  "json_of_Contracts cs = map_option JArr (json_all json_of_Contract cs)"

definition json_to_Contract :: "Contract decoder" where
  "json_to_Contract old v =
     (case json_members v of
        None \<Rightarrow> None
      | Some ms \<Rightarrow>
          (case (json_field json_string ''owner_id'' (c_OwnerID old) ms,
                 json_field json_uint32 ''size'' (c_Size old) ms,
                 json_field json_string ''cid'' (c_Cid old) ms,
                 json_field json_time ''expires'' (c_Expires old) ms,
                 json_field json_uint32 ''cardinality'' (c_Cardinality old) ms,
                 json_field json_uint32 ''datatype'' (c_Datatype old) ms) of
             (Some ow, Some sz, Some ci, Some ex, Some ca, Some da) \<Rightarrow>
               Some \<lparr>c_OwnerID = ow, c_Size = sz, c_Cid = ci, c_Expires = ex,
                     c_Cardinality = ca, c_Datatype = da\<rparr>
           | _ \<Rightarrow> None))"

definition json_to_Offer :: "Offer decoder" where
  "json_to_Offer old v =
     (case json_members v of
        None \<Rightarrow> None
      | Some ms \<Rightarrow>
          (case (json_field json_string ''multiaddr'' (o_Multiaddr old) ms,
                 json_field json_uint32 ''capacity'' (o_Capacity old) ms,
                 json_field json_time ''timestamp'' (o_Timestamp old) ms,
                 json_field json_string ''signature'' (o_Signature old) ms) of
             (Some ma, Some ca, Some ts, Some si) \<Rightarrow>
               Some \<lparr>o_Multiaddr = ma, o_Capacity = ca, o_Timestamp = ts, o_Signature = si\<rparr>
           | _ \<Rightarrow> None))"

section \<open>Well-formed entities survive the JSON round trip\<close>

definition json_wf_time :: "gotime \<Rightarrow> bool" where
  "json_wf_time t \<longleftrightarrow> 0 \<le> Year t \<and> Year t < 10000 \<and> t_nsec t < 1000000000 \<and> t_mono t = None"

definition json_wf_Contract :: "Contract \<Rightarrow> bool" where
  "json_wf_Contract c \<longleftrightarrow>
     valid_utf8 (c_OwnerID c) \<and> valid_utf8 (c_Cid c) \<and> json_wf_time (c_Expires c)"

definition json_wf_Offer :: "Offer \<Rightarrow> bool" where
  "json_wf_Offer x \<longleftrightarrow>
     valid_utf8 (o_Multiaddr x) \<and> valid_utf8 (o_Signature x) \<and> json_wf_time (o_Timestamp x)"

lemma json_wf_time_roundtrip:
  assumes "json_wf_time t"
  shows "\<exists>j. json_of_time t = Some j \<and> (\<forall>old. json_time old j = Some t)"
proof -
  obtain s where s: "time_MarshalJSON t = Some s"
    using assms by (auto simp: json_wf_time_def time_MarshalJSON_def)
  then have j: "json_of_time t = Some (JStr s)" by (simp add: json_of_time_def)
  have "json_time old (JStr s) = Some t" for old
    using json_time_of_time [OF j] assms by (simp add: json_wf_time_def)
  with j show ?thesis by blast
qed

lemma contract_keys [simp]:
  "fold_key ''owner_id'' = ''owner_id''" "fold_key ''size'' = ''size''"
  "fold_key ''cid'' = ''cid''" "fold_key ''expires'' = ''expires''"
  "fold_key ''cardinality'' = ''cardinality''" "fold_key ''datatype'' = ''datatype''"
  by code_simp+

lemma offer_keys [simp]:
  "fold_key ''multiaddr'' = ''multiaddr''" "fold_key ''capacity'' = ''capacity''"
  "fold_key ''timestamp'' = ''timestamp''" "fold_key ''signature'' = ''signature''"
  "fold_key ''contracts'' = ''contracts''" "fold_key ''type'' = ''type''"
  "fold_key ''payload'' = ''payload''"
  by code_simp+

lemma json_Contract_roundtrip:
  assumes "json_wf_Contract c"
  obtains j where "json_of_Contract c = Some j" "\<And>old. json_to_Contract old j = Some c"
proof -
  from assms have "json_wf_time (c_Expires c)" by (simp add: json_wf_Contract_def)
  then obtain e where e: "json_of_time (c_Expires c) = Some e"
      "\<And>old. json_time old e = Some (c_Expires c)"
    using json_wf_time_roundtrip by blast
  let ?j = "JObj [(''owner_id'', json_of_string (c_OwnerID c)), (''size'', json_of_uint32 (c_Size c)),
      (''cid'', json_of_string (c_Cid c)), (''expires'', e),
      (''cardinality'', json_of_uint32 (c_Cardinality c)),
      (''datatype'', json_of_uint32 (c_Datatype c))]"
  have "json_of_Contract c = Some ?j" using e(1) by (simp add: json_of_Contract_def)
  moreover have "json_to_Contract old ?j = Some c" for old
    using assms e(2) by (simp add: json_to_Contract_def json_wf_Contract_def valid_utf8_def)
  ultimately show thesis by (rule that)
qed

lemma json_Offer_roundtrip:
  assumes "json_wf_Offer x"
  obtains j where "json_of_Offer x = Some j" "\<And>old. json_to_Offer old j = Some x"
proof -
  from assms have "json_wf_time (o_Timestamp x)" by (simp add: json_wf_Offer_def)
  then obtain e where e: "json_of_time (o_Timestamp x) = Some e"
      "\<And>old. json_time old e = Some (o_Timestamp x)"
    using json_wf_time_roundtrip by blast
  let ?j = "JObj [(''multiaddr'', json_of_string (o_Multiaddr x)),
      (''capacity'', json_of_uint32 (o_Capacity x)), (''timestamp'', e),
      (''signature'', json_of_string (o_Signature x))]"
  have "json_of_Offer x = Some ?j" using e(1) by (simp add: json_of_Offer_def)
  moreover have "json_to_Offer old ?j = Some x" for old
    using assms e(2) by (simp add: json_to_Offer_def json_wf_Offer_def valid_utf8_def)
  ultimately show thesis by (rule that)
qed

lemma json_all_None_iff: "json_all f xs = None \<longleftrightarrow> (\<exists>x\<in>set xs. f x = None)"
  by (induction xs) (auto split: option.splits)

lemma json_of_Contract_None_iff:
  "json_of_Contract c = None \<longleftrightarrow> \<not> (0 \<le> Year (c_Expires c) \<and> Year (c_Expires c) < 10000)"
  by (simp add: json_of_Contract_def json_of_time_def time_MarshalJSON_def)

lemma json_of_Contracts_None_iff:
  "json_of_Contracts cs = None \<longleftrightarrow>
     (\<exists>c\<in>set cs. \<not> (0 \<le> Year (c_Expires c) \<and> Year (c_Expires c) < 10000))"
  by (simp add: json_of_Contracts_def json_all_None_iff json_of_Contract_None_iff)

end
