(* ===== verification/Msg_Types.thy ===== *)
theory Msg_Types
  imports Prelude
begin

text \<open>
  The wire types of the node-to-node protocol (\<^verbatim>\<open>gen/msg/msg.pb.go\<close>): one record per generated
  struct, a pointer to a sub-message an \<open>option\<close>, the open enum \<^verbatim>\<open>Message_Type\<close> a 32-bit integer.
  \<^verbatim>\<open>XXX_unrecognized\<close> holds the bytes of unknown fields; the reflection bookkeeping of the
  structs carries no data of the program.
\<close>

definition Message_UNKNOWN :: int32 where "Message_UNKNOWN = 0"
definition Message_STORAGE_REQUEST :: int32 where "Message_STORAGE_REQUEST = 1"
definition Message_STORAGE_RESPONSE :: int32 where "Message_STORAGE_RESPONSE = 2"
definition Message_RETRIEVAL_REQUEST :: int32 where "Message_RETRIEVAL_REQUEST = 3"
definition Message_RETRIEVAL_RESPONSE :: int32 where "Message_RETRIEVAL_RESPONSE = 4"

lemmas Message_Type_defs =
  Message_UNKNOWN_def Message_STORAGE_REQUEST_def Message_STORAGE_RESPONSE_def
  Message_RETRIEVAL_REQUEST_def Message_RETRIEVAL_RESPONSE_def

record PbOffer =
  po_Multiaddr :: gostring
  po_Capacity :: uint32
  po_Timestamp :: int64
  po_Signature :: gostring
  po_XXX :: "byte list"

record PbContract =
  pc_OwnerId :: gostring
  pc_Size :: uint32
  pc_Cid :: gostring
  pc_Expires :: int64
  pc_Cardinality :: uint32
  pc_Datatype :: uint32
  pc_XXX :: "byte list"

record MsgStorageRequest =
  sq_Multiaddr :: gostring
  sq_Contract :: "PbContract option"
  sq_XXX :: "byte list"

record MsgStorageResponse =
  sp_Multiaddr :: gostring
  sp_Done :: bool
  sp_XXX :: "byte list"

record MsgRetrievalRequest =
  rq_Multiaddr :: gostring
  rq_OwnerId :: gostring
  rq_Timestamp :: int64
  rq_Signature :: gostring
  rq_XXX :: "byte list"

record MsgRetrievalResponse =
  rp_IpfsLinks :: "gostring list"
  rp_XXX :: "byte list"

record PbMessage =
  m_Type :: int32
  m_StorageRequest :: "MsgStorageRequest option"
  m_StorageResponse :: "MsgStorageResponse option"
  m_RetrievalRequest :: "MsgRetrievalRequest option"
  m_RetrievalResponse :: "MsgRetrievalResponse option"
  m_XXX :: "byte list"

text \<open>The zero values, which \<^verbatim>\<open>Reset\<close> assigns and a fresh target of \<^verbatim>\<open>Unmarshal\<close> holds.\<close>

definition zero_PbOffer :: PbOffer where
  "zero_PbOffer = \<lparr>po_Multiaddr = [], po_Capacity = 0, po_Timestamp = 0, po_Signature = [],
     po_XXX = []\<rparr>"

definition zero_PbContract :: PbContract where
  "zero_PbContract = \<lparr>pc_OwnerId = [], pc_Size = 0, pc_Cid = [], pc_Expires = 0,
     pc_Cardinality = 0, pc_Datatype = 0, pc_XXX = []\<rparr>"

definition zero_MsgStorageRequest :: MsgStorageRequest where
  "zero_MsgStorageRequest = \<lparr>sq_Multiaddr = [], sq_Contract = None, sq_XXX = []\<rparr>"

definition zero_MsgStorageResponse :: MsgStorageResponse where
  "zero_MsgStorageResponse = \<lparr>sp_Multiaddr = [], sp_Done = False, sp_XXX = []\<rparr>"

definition zero_MsgRetrievalRequest :: MsgRetrievalRequest where
  "zero_MsgRetrievalRequest = \<lparr>rq_Multiaddr = [], rq_OwnerId = [], rq_Timestamp = 0,
     rq_Signature = [], rq_XXX = []\<rparr>"

definition zero_MsgRetrievalResponse :: MsgRetrievalResponse where
  "zero_MsgRetrievalResponse = \<lparr>rp_IpfsLinks = [], rp_XXX = []\<rparr>"

definition zero_PbMessage :: PbMessage where
  "zero_PbMessage = \<lparr>m_Type = 0, m_StorageRequest = None, m_StorageResponse = None,
     m_RetrievalRequest = None, m_RetrievalResponse = None, m_XXX = []\<rparr>"

lemmas zero_msg_defs =
  zero_PbOffer_def zero_PbContract_def zero_MsgStorageRequest_def zero_MsgStorageResponse_def
  zero_MsgRetrievalRequest_def zero_MsgRetrievalResponse_def zero_PbMessage_def

end
