(* ===== verification/Messages.thy ===== *)
theory Messages
  imports Entities Msg_Types
begin

text \<open>
  The messages two nodes exchange (\<^verbatim>\<open>messages/entities.go\<close>) and their translation to and from the
  wire structs.  A value of Go type \<^verbatim>\<open>interface{}\<close> that holds one of the four message structs is a
  value of \<open>message\<close>; the nil interface is \<open>None\<close>.
\<close>

record StorageRequest =
  SQ_Multiaddr :: gostring
  SQ_Contract :: Contract

record StorageResponse =
  SP_Multiaddr :: gostring
  SP_Done :: bool

record RetrievalRequest =
  RQ_Multiaddr :: gostring
  RQ_OwnerID :: gostring
  RQ_Timestamp :: gotime
  RQ_Signature :: gostring

record RetrievalResponse =
  RP_IpfsLinks :: "gostring list"

datatype message =
  MStorageRequest StorageRequest | MStorageResponse StorageResponse |
  MRetrievalRequest RetrievalRequest | MRetrievalResponse RetrievalResponse

definition StorageRequest_Marshal :: "StorageRequest \<Rightarrow> PbMessage" where
  "StorageRequest_Marshal m = zero_PbMessage
     \<lparr>m_Type := Message_STORAGE_REQUEST,
      m_StorageRequest := Some
        \<lparr>sq_Multiaddr = SQ_Multiaddr m,
         sq_Contract = Some
           \<lparr>pc_OwnerId = c_OwnerID (SQ_Contract m), pc_Size = c_Size (SQ_Contract m),
            pc_Cid = c_Cid (SQ_Contract m), pc_Expires = Unix (c_Expires (SQ_Contract m)),
            pc_Cardinality = c_Cardinality (SQ_Contract m),
            pc_Datatype = c_Datatype (SQ_Contract m), pc_XXX = []\<rparr>,
         sq_XXX = []\<rparr>\<rparr>"

definition StorageResponse_Marshal :: "StorageResponse \<Rightarrow> PbMessage" where
  "StorageResponse_Marshal m = zero_PbMessage
     \<lparr>m_Type := Message_STORAGE_RESPONSE,
      m_StorageResponse := Some
        \<lparr>sp_Multiaddr = SP_Multiaddr m, sp_Done = SP_Done m, sp_XXX = []\<rparr>\<rparr>"

definition RetrievalRequest_Marshal :: "RetrievalRequest \<Rightarrow> PbMessage" where
  "RetrievalRequest_Marshal m = zero_PbMessage
     \<lparr>m_Type := Message_RETRIEVAL_REQUEST,
      m_RetrievalRequest := Some
        \<lparr>rq_Multiaddr = RQ_Multiaddr m, rq_OwnerId = RQ_OwnerID m,
         rq_Timestamp = Unix (RQ_Timestamp m), rq_Signature = RQ_Signature m, rq_XXX = []\<rparr>\<rparr>"

definition RetrievalResponse_Marshal :: "RetrievalResponse \<Rightarrow> PbMessage" where
  "RetrievalResponse_Marshal m = zero_PbMessage
     \<lparr>m_Type := Message_RETRIEVAL_RESPONSE,
      m_RetrievalResponse := Some \<lparr>rp_IpfsLinks = RP_IpfsLinks m, rp_XXX = []\<rparr>\<rparr>"

fun MarshalToProtobuf :: "message \<Rightarrow> PbMessage" where
  "MarshalToProtobuf (MStorageRequest m) = StorageRequest_Marshal m"
| "MarshalToProtobuf (MStorageResponse m) = StorageResponse_Marshal m"
| "MarshalToProtobuf (MRetrievalRequest m) = RetrievalRequest_Marshal m"
| "MarshalToProtobuf (MRetrievalResponse m) = RetrievalResponse_Marshal m"

text \<open>The contract of a storage request, read field by field through the pointer.\<close>

definition Contract_of_pb :: "PbContract \<Rightarrow> Contract" where
  "Contract_of_pb c =
     \<lparr>c_OwnerID = pc_OwnerId c, c_Size = pc_Size c, c_Cid = pc_Cid c,
      c_Expires = time_Unix (pc_Expires c), c_Cardinality = pc_Cardinality c,
      c_Datatype = pc_Datatype c\<rparr>"

text \<open>
  The switch is on \<^verbatim>\<open>Type\<close> alone: the sub-message it announces is dereferenced without a check,
  so one that is absent from the wire is a nil dereference.
\<close>

definition UnmarshalFromProtobuf :: "PbMessage \<Rightarrow> panic + message option" where
  "UnmarshalFromProtobuf msg =
     (if m_Type msg = Message_STORAGE_REQUEST then
        (case m_StorageRequest msg of
           None \<Rightarrow> Inl NilDereference
         | Some q \<Rightarrow>
             (case sq_Contract q of
                None \<Rightarrow> Inl NilDereference
              | Some c \<Rightarrow> Inr (Some (MStorageRequest
                  \<lparr>SQ_Multiaddr = sq_Multiaddr q, SQ_Contract = Contract_of_pb c\<rparr>))))
      else if m_Type msg = Message_STORAGE_RESPONSE then
        (case m_StorageResponse msg of
           None \<Rightarrow> Inl NilDereference
         | Some q \<Rightarrow> Inr (Some (MStorageResponse
             \<lparr>SP_Multiaddr = sp_Multiaddr q, SP_Done = sp_Done q\<rparr>)))
      else if m_Type msg = Message_RETRIEVAL_REQUEST then
        (case m_RetrievalRequest msg of
           None \<Rightarrow> Inl NilDereference
         | Some q \<Rightarrow> Inr (Some (MRetrievalRequest
             \<lparr>RQ_Multiaddr = rq_Multiaddr q, RQ_OwnerID = rq_OwnerId q,
              RQ_Timestamp = time_Unix (rq_Timestamp q), RQ_Signature = rq_Signature q\<rparr>)))
      else if m_Type msg = Message_RETRIEVAL_RESPONSE then
        (case m_RetrievalResponse msg of
           None \<Rightarrow> Inl NilDereference
         | Some q \<Rightarrow> Inr (Some (MRetrievalResponse \<lparr>RP_IpfsLinks = rp_IpfsLinks q\<rparr>)))
      else Inr None)"

section \<open>What the translation keeps\<close>

text \<open>The wire carries whole seconds: what arrives is the message with its times truncated.\<close>

definition trunc_time :: "gotime \<Rightarrow> gotime" where
  "trunc_time t = \<lparr>t_sec = t_sec t, t_nsec = 0, t_mono = None\<rparr>"

fun trunc_message :: "message \<Rightarrow> message" where
  "trunc_message (MStorageRequest m) =
     MStorageRequest (m\<lparr>SQ_Contract := (SQ_Contract m)\<lparr>c_Expires := trunc_time (c_Expires (SQ_Contract m))\<rparr>\<rparr>)"
| "trunc_message (MRetrievalRequest m) =
     MRetrievalRequest (m\<lparr>RQ_Timestamp := trunc_time (RQ_Timestamp m)\<rparr>)"
| "trunc_message m = m"

lemma time_Unix_of_Unix: "time_Unix (Unix t) = trunc_time t"
  by (simp add: time_Unix_def Unix_def trunc_time_def)

lemmas Marshal_defs =
  StorageRequest_Marshal_def StorageResponse_Marshal_def
  RetrievalRequest_Marshal_def RetrievalResponse_Marshal_def

lemma Unmarshal_MarshalToProtobuf:
  "UnmarshalFromProtobuf (MarshalToProtobuf m) = Inr (Some (trunc_message m))"
  by (cases m)
    (simp_all add: UnmarshalFromProtobuf_def Marshal_defs Message_Type_defs zero_PbMessage_def
       Contract_of_pb_def time_Unix_of_Unix)

text \<open>The panic happens exactly when the announced sub-message (or its contract) is missing.\<close>

definition announced_present :: "PbMessage \<Rightarrow> bool" where
  "announced_present msg \<longleftrightarrow>
     (m_Type msg = 1 \<longrightarrow> (\<exists>q. m_StorageRequest msg = Some q \<and> sq_Contract q \<noteq> None)) \<and>
     (m_Type msg = 2 \<longrightarrow> m_StorageResponse msg \<noteq> None) \<and>
     (m_Type msg = 3 \<longrightarrow> m_RetrievalRequest msg \<noteq> None) \<and>
     (m_Type msg = 4 \<longrightarrow> m_RetrievalResponse msg \<noteq> None)"

lemma Unmarshal_panics_iff:
  "UnmarshalFromProtobuf msg = Inl NilDereference \<longleftrightarrow> \<not> announced_present msg"
  by (auto simp: UnmarshalFromProtobuf_def announced_present_def Message_Type_defs
      split: option.splits)

end
