(* ===== verification/Ipfs.thy ===== *)
theory Ipfs
  imports Json
begin

text \<open>
  The IPFS manager (\<^verbatim>\<open>ipfs/ipfs_manager.go\<close>): every operation runs command lines through
  \<^verbatim>\<open>bash -c\<close>.  The shell is a parameter: what a command answers may depend on the commands run
  before it.  \<open>None\<close> is a command that fails to start or exits with an error, \<open>Some out\<close> its
  standard output.  The state threaded through the operations is the list of command lines run
  so far.
\<close>

type_synonym shell = "gostring list \<Rightarrow> gostring \<Rightarrow> gostring option"

record ipfs_env =
  shell :: shell
  daemon_start :: "gostring list \<Rightarrow> bool"           \<comment> \<open>\<^verbatim>\<open>cmd.Start\<close> of the daemon succeeds\<close>
  daemon_out :: "gostring list \<Rightarrow> nat \<Rightarrow> gostring" \<comment> \<open>its output after the given second\<close>

definition executeCommand :: "ipfs_env \<Rightarrow> gostring \<Rightarrow> gostring list \<Rightarrow> gostring option \<times> gostring list" where
  "executeCommand env c h = (shell env h c, h @ [c])"

section \<open>Starting the daemon\<close>

definition daemon_ready :: "gostring \<Rightarrow> bool" where
  "daemon_ready out =
     (let rows = strings_Split out (CHR 0x0A)
      in length rows > 2 \<and> rows ! (length rows - 2) = ''Daemon is ready'')"

text \<open>The polling loop: \<open>k\<close> seconds are left of 30; the start error is looked at after the first.\<close>

fun await_daemon :: "bool \<Rightarrow> (nat \<Rightarrow> gostring) \<Rightarrow> nat \<Rightarrow> bool" where
  "await_daemon started out 0 = False"
| "await_daemon started out (Suc k) =
     (if \<not> started then False
      else if daemon_ready (out (30 - Suc k)) then True
      else await_daemon started out k)"

text \<open>\<^verbatim>\<open>True\<close> is the nil error.\<close>

definition startIpfsDaemon :: "ipfs_env \<Rightarrow> gostring list \<Rightarrow> bool \<times> gostring list" where
  "startIpfsDaemon env h =
     (case executeCommand env ''pidof ipfs'' h of
        (Some _, h1) \<Rightarrow> (True, h1)
      | (None, h1) \<Rightarrow>
          (let h2 = h1 @ [''nohup ipfs daemon'']
           in (await_daemon (daemon_start env h1) (daemon_out env h1) 30, h2)))"

section \<open>Pinning\<close>

definition ipfsPin :: "ipfs_env \<Rightarrow> gostring \<Rightarrow> gostring list \<Rightarrow> bool \<times> gostring list" where
  "ipfsPin env cid h =
     (case executeCommand env (''ipfs pin add '' @ cid) h of (r, h') \<Rightarrow> (r \<noteq> None, h'))"

definition ipfsPinAll :: "ipfs_env \<Rightarrow> gostring \<Rightarrow> gostring list \<Rightarrow> bool \<times> gostring list" where
  "ipfsPinAll env cid h =
     (case ipfsPin env cid h of
        (False, h1) \<Rightarrow> (False, h1)
      | (True, h1) \<Rightarrow>
          (case executeCommand env
                  (''ipfs cat '' @ cid @ '' | while read line; do ipfs pin add $line; done'') h1 of
             (r, h2) \<Rightarrow> (r \<noteq> None, h2)))"

definition HostContent :: "ipfs_env \<Rightarrow> gostring \<Rightarrow> gostring list \<Rightarrow> bool \<times> gostring list" where
  "HostContent env cid h =
     (case startIpfsDaemon env h of
        (False, h1) \<Rightarrow> (False, h1)
      | (True, h1) \<Rightarrow> ipfsPinAll env cid h1)"

definition ipfsUnpin :: "ipfs_env \<Rightarrow> gostring \<Rightarrow> gostring list \<Rightarrow> bool \<times> gostring list" where
  "ipfsUnpin env cid h =
     (case executeCommand env (''ipfs pin rm '' @ cid) h of (r, h') \<Rightarrow> (r \<noteq> None, h'))"

text \<open>Failures are logged only: the index file is unpinned whatever happened to its content.\<close>

definition IpfsUnpinAll :: "ipfs_env \<Rightarrow> gostring \<Rightarrow> gostring list \<Rightarrow> gostring list" where
  "IpfsUnpinAll env cid h =
     (case executeCommand env
             (''ipfs cat '' @ cid @ '' | while read line; do ipfs pin rm $line; done'') h of
        (_, h1) \<Rightarrow> snd (ipfsUnpin env cid h1))"

section \<open>Uploading\<close>

definition encrypted :: "uint32 \<Rightarrow> bool" where
  "encrypted datatype \<longleftrightarrow> datatype = 1 \<or> datatype = 2"

text \<open>Go's integer division truncates towards zero.\<close>

definition quot :: "int \<Rightarrow> int \<Rightarrow> int" where
  "quot a b = sgn a * sgn b * (\<bar>a\<bar> div \<bar>b\<bar>)"

definition size_in_MB :: "int \<Rightarrow> uint32" where
  "size_in_MB sizeInt = word_of_int (1 + quot sizeInt 1000000)"

definition ipfser_cmd :: "uint32 \<Rightarrow> gostring \<Rightarrow> gostring \<Rightarrow> gostring" where
  "ipfser_cmd datatype filepath pass =
     (if encrypted datatype
      then ''ipfser '' @ dec_nat (unat datatype) @ '' '' @ filepath @ '' '' @ pass
      else ''ipfser '' @ dec_nat (unat datatype) @ '' '' @ filepath)"

text \<open>Result: cid and size, or \<open>None\<close> for an error (then the code returns an empty cid and size 0).\<close>

definition ipfser ::
  "ipfs_env \<Rightarrow> uint32 \<Rightarrow> gostring \<Rightarrow> gostring \<Rightarrow> gostring list \<Rightarrow> (gostring \<times> uint32) option \<times> gostring list"
where
  "ipfser env datatype filepath pass h =
     (case executeCommand env (ipfser_cmd datatype filepath pass) h of
        (None, h') \<Rightarrow> (None, h')
      | (Some out, h') \<Rightarrow>
          (let outs = strings_Split out (CHR '' '')
           in if length outs \<noteq> 2 then (None, h')
              else (case Atoi (outs ! 1) of
                      None \<Rightarrow> (None, h')
                    | Some sizeInt \<Rightarrow> (Some (outs ! 0, size_in_MB sizeInt), h'))))"

definition Ipfser ::
  "ipfs_env \<Rightarrow> uint32 \<Rightarrow> gostring \<Rightarrow> gostring \<Rightarrow> gostring list \<Rightarrow> (gostring \<times> uint32) option \<times> gostring list"
where
  "Ipfser env datatype filepath pass h =
     (case startIpfsDaemon env h of
        (False, h1) \<Rightarrow> (None, h1)
      | (True, h1) \<Rightarrow> ipfser env datatype filepath pass h1)"

text \<open>
  \<^verbatim>\<open>storeToMFS\<close>, the upload without a script (its call is commented out).  \<open>parse\<close> reads the text of
  a JSON value; an answer that is no object leaves the map nil, and the last of equal keys counts.
  The two type assertions are unchecked.
\<close>

definition answer_map :: "(gostring \<Rightarrow> json option) \<Rightarrow> gostring \<Rightarrow> gostring \<rightharpoonup> json" where
  "answer_map parse out = (case parse out of Some (JObj ms) \<Rightarrow> map_of (rev ms) | _ \<Rightarrow> Map.empty)"

definition add_cmd :: "gostring \<Rightarrow> gostring" where
  "add_cmd filepath = ''curl -X POST -F file=@'' @ filepath @ '' http://127.0.0.1:5001/api/v0/add?'' @
     ''quiet=true&quieter=true&wrap-with-directory=true&pin=true''"

definition cp_cmd :: "gostring \<Rightarrow> gostring" where
  "cp_cmd hash = ''curl -X POST \"http://127.0.0.1:5001/api/v0/files/cp?arg=/ipfs/'' @ hash @ ''&arg=/\"''"

definition storeToMFS ::
  "ipfs_env \<Rightarrow> (gostring \<Rightarrow> json option) \<Rightarrow> gostring \<Rightarrow> gostring list \<Rightarrow>
   panic + (gostring \<times> uint32) option \<times> gostring list"
where
  "storeToMFS env parse filepath h =
     (case executeCommand env (add_cmd filepath) h of
        (None, h1) \<Rightarrow> Inr (None, h1)
      | (Some out, h1) \<Rightarrow>
          (case answer_map parse out ''Hash'' of
             Some (JStr hash) \<Rightarrow>
               (case answer_map parse out ''Size'' of
                  Some (JStr sizeStr) \<Rightarrow>
                    (case Atoi sizeStr of
                       None \<Rightarrow> Inr (None, h1)
                     | Some sizeInt \<Rightarrow>
                         (case executeCommand env (cp_cmd hash) h1 of
                            (None, h2) \<Rightarrow> Inr (None, h2)
                          | (Some _, h2) \<Rightarrow> Inr (Some (hash, size_in_MB sizeInt), h2)))
                | _ \<Rightarrow> Inl TypeAssertionFailed)
           | _ \<Rightarrow> Inl TypeAssertionFailed))"

section \<open>Downloading\<close>

definition Dei_cmd :: "uint32 \<Rightarrow> gostring \<Rightarrow> gostring \<Rightarrow> bool \<Rightarrow> gostring" where
  "Dei_cmd datatype cid pass deindex =
     (if encrypted datatype
      then ''dei '' @ dec_nat (unat datatype) @ '' '' @ cid @ '' '' @ pass @ '' '' @ FormatBool deindex
      else ''dei '' @ dec_nat (unat datatype) @ '' '' @ cid @ '' '' @ FormatBool deindex)"

definition Dei :: "ipfs_env \<Rightarrow> uint32 \<Rightarrow> gostring \<Rightarrow> gostring \<Rightarrow> bool \<Rightarrow> gostring list \<Rightarrow> gostring list" where
  "Dei env datatype cid pass deindex h = snd (executeCommand env (Dei_cmd datatype cid pass deindex) h)"

definition Subdei_cmd :: "uint32 \<Rightarrow> gostring \<Rightarrow> gostring \<Rightarrow> gostring" where
  "Subdei_cmd datatype cid pass =
     (if encrypted datatype then ''subdei '' @ dec_nat (unat datatype) @ '' '' @ cid @ '' '' @ pass
      else ''subdei '' @ dec_nat (unat datatype) @ '' '' @ cid)"

text \<open>The \<^verbatim>\<open>deindex\<close> argument is not used.\<close>

definition Subdei :: "ipfs_env \<Rightarrow> uint32 \<Rightarrow> gostring \<Rightarrow> gostring \<Rightarrow> bool \<Rightarrow> gostring list \<Rightarrow> gostring list" where
  "Subdei env datatype cid pass deindex h = snd (executeCommand env (Subdei_cmd datatype cid pass) h)"

section \<open>Properties\<close>

text \<open>The command lines of an operation extend the history; none is ever dropped.\<close>

lemma startIpfsDaemon_history: "\<exists>cs. snd (startIpfsDaemon env h) = h @ cs"
  by (auto simp: startIpfsDaemon_def executeCommand_def Let_def split: prod.splits option.splits)

lemma await_daemon_iff:
  "await_daemon started out k \<longleftrightarrow> started \<and> (\<exists>j<k. daemon_ready (out (30 - Suc j)))"
  by (induction k) (auto simp: less_Suc_eq)

lemma size_in_MB_bounds:
  assumes "0 \<le> n" and "n < (2 ^ 32 - 1) * 1000000"
  shows "n < int (unat (size_in_MB n)) * 1000000"
    and "int (unat (size_in_MB n)) * 1000000 \<le> n + 1000000"
proof -
  define v where "v = 1 + n div 1000000"
  have "0 \<le> v" "v < 2 ^ 32" using assms by (simp_all add: v_def pos_imp_zdiv_nonneg_iff)
  then have "uint (word_of_int v :: uint32) = v"
    by (simp add: uint_word_of_int take_bit_int_eq_self)
  moreover have "size_in_MB n = word_of_int v"
    using assms(1) by (simp add: size_in_MB_def quot_def v_def sgn_if)
  ultimately have "uint (size_in_MB n) = 1 + n div 1000000" by (simp add: v_def)
  then show "n < int (unat (size_in_MB n)) * 1000000"
    and "int (unat (size_in_MB n)) * 1000000 \<le> n + 1000000"
    by simp_all
qed

text \<open>C35: The size of an uploaded file, as its contract will carry it: when an upload succeeds, the
  script answered a cid and a number of bytes, and if that number is not negative and below
  (2^32 - 1) MB, the size in MB is enough for the content and exceeds it by at most one MB.\<close>

theorem uploaded_size:
  assumes "Ipfser env datatype filepath pass h = (Some (cid, sz), h')"
  shows "\<exists>out digits n. strings_Split out (CHR '' '') = [cid, digits] \<and> Atoi digits = Some n \<and>
    shell env (snd (startIpfsDaemon env h)) (ipfser_cmd datatype filepath pass) = Some out \<and>
    (0 \<le> n \<and> n < (2 ^ 32 - 1) * 1000000 \<longrightarrow>
       n < int (unat sz) * 1000000 \<and> int (unat sz) * 1000000 \<le> n + 1000000)"
proof -
  from assms obtain out n where out: "length (strings_Split out (CHR '' '')) = 2"
      "cid = strings_Split out (CHR '' '') ! 0" "Atoi (strings_Split out (CHR '' '') ! 1) = Some n"
      "sz = size_in_MB n"
      "shell env (snd (startIpfsDaemon env h)) (ipfser_cmd datatype filepath pass) = Some out"
    by (auto simp: Ipfser_def ipfser_def executeCommand_def Let_def
        split: prod.splits bool.splits option.splits if_splits)
  then have "strings_Split out (CHR '' '') = [cid, strings_Split out (CHR '' '') ! 1]"
    by (auto simp: length_Suc_conv numeral_2_eq_2)
  with out size_in_MB_bounds [of n] show ?thesis by blast
qed

text \<open>The direct upload, were it used: it panics on every answer without two string members.\<close>

lemma storeToMFS_panics_iff:
  "((\<exists>p. storeToMFS env parse filepath h = Inl p) =
    (\<exists>out. shell env h (add_cmd filepath) = Some out \<and>
       \<not> ((\<exists>hash. answer_map parse out ''Hash'' = Some (JStr hash)) \<and>
          (\<exists>bytes. answer_map parse out ''Size'' = Some (JStr bytes)))))"
  by (auto simp: storeToMFS_def executeCommand_def split: option.splits json.splits prod.splits)

section \<open>Witness\<close>

definition demo_ipfs :: "gostring \<Rightarrow> ipfs_env" where
  "demo_ipfs out = \<lparr>shell = (\<lambda>_ _. Some out), daemon_start = (\<lambda>_. True), daemon_out = (\<lambda>_ _. [])\<rparr>"

theorem uploaded_size_witness:
  "2500000 < int (unat (size_in_MB 2500000)) * 1000000"
proof -
  have "strings_Split ''Qm 2500000'' (CHR '' '') = [''Qm'', ''2500000'']"
    by simp
  moreover have "Atoi ''2500000'' = Some 2500000"
    by (simp add: Atoi_def undec_def undec_from_def is_digit_def digit_val_def)
  ultimately have "\<exists>h. Ipfser (demo_ipfs ''Qm 2500000'') 0 ''f'' [] [] = (Some (''Qm'', size_in_MB 2500000), h)"
    by (simp add: Ipfser_def startIpfsDaemon_def executeCommand_def demo_ipfs_def ipfser_def
        del: strings_Split.simps)
  then obtain h where "Ipfser (demo_ipfs ''Qm 2500000'') 0 ''f'' [] [] = (Some (''Qm'', size_in_MB 2500000), h)"
    by (elim exE)
  from uploaded_size [OF this] \<open>strings_Split _ _ = _\<close> \<open>Atoi _ = _\<close> show ?thesis
    by (auto simp: demo_ipfs_def simp del: strings_Split.simps)
qed

end
