(* ===== verification/OfferManager.thy ===== *)
theory OfferManager
  imports Messages Ipfs
begin

text \<open>
  The offer manager (\<^verbatim>\<open>node/offer_manager.go\<close>): the contracts whose data this node hosts, the
  storage offer it advertises, and the file that keeps the contracts across restarts.  Each
  method is a function of the node's environment and the manager's state; the clock is an
  argument.  The mutex is not part of the sequential state: \<open>OfferConcurrency\<close> splits the methods
  at their lock operations and interleaves them.
\<close>

section \<open>Environment and state\<close>

text \<open>A file holds JSON or anything else; the name of the contracts file depends on the node.\<close>

datatype disk_file = JsonFile json | RawFile gostring

type_synonym file_system = "gostring \<rightharpoonup> disk_file"

text \<open>What the managers use of their node (interface \<^verbatim>\<open>Node\<close>) and of the machine.\<close>

record node_env =
  n_ID :: gostring                                              \<comment> \<open>\<^verbatim>\<open>ID().Pretty()\<close>\<close>
  n_Multiaddr :: gostring
  n_sign :: "gostring \<Rightarrow> gostring \<Rightarrow> gostring option"
  n_getPrivKey :: "gostring option"
  n_ipfs :: ipfs_env
  n_writable :: "gostring \<Rightarrow> bool"                              \<comment> \<open>\<^verbatim>\<open>WriteFile\<close> succeeds\<close>

record OfferManager =
  om_contracts :: "Contract list"
  om_isOfferSet :: bool
  om_offer :: Offer
  om_fs :: file_system
  om_hist :: "gostring list"                                    \<comment> \<open>shell commands run\<close>
  om_spawned :: "gostring list"                                 \<comment> \<open>cids handed to \<^verbatim>\<open>go IpfsUnpinAll\<close>\<close>

definition contracts_filepath :: gostring where
  "contracts_filepath = ''/home/o/kias/go/src/omnidisk/''"

definition contracts_file :: "node_env \<Rightarrow> gostring" where
  "contracts_file env = contracts_filepath @ n_ID env @ ''_contracts.json''"

section \<open>The contracts file\<close>

text \<open>
  The struct local to \<^verbatim>\<open>loadFromDisk\<close>, with \<^verbatim>\<open>int\<close> fields, and its conversion, which truncates to
  32 bits.
\<close>

record tmp_contract =
  tc_OwnerID :: gostring
  tc_Size :: int
  tc_Cid :: gostring
  tc_Expires :: gotime
  tc_Cardinality :: int
  tc_Datatype :: int

definition zero_tmp_contract :: tmp_contract where
  "zero_tmp_contract = \<lparr>tc_OwnerID = [], tc_Size = 0, tc_Cid = [], tc_Expires = zero_time,
     tc_Cardinality = 0, tc_Datatype = 0\<rparr>"

definition json_to_tmp_contract :: "tmp_contract decoder" where
  "json_to_tmp_contract old v =
     (case json_members v of
        None \<Rightarrow> None
      | Some ms \<Rightarrow>
          (case (json_field json_string ''owner_id'' (tc_OwnerID old) ms,
                 json_field json_int ''size'' (tc_Size old) ms,
                 json_field json_string ''cid'' (tc_Cid old) ms,
                 json_field json_time ''expires'' (tc_Expires old) ms,
                 json_field json_int ''cardinality'' (tc_Cardinality old) ms,
                 json_field json_int ''datatype'' (tc_Datatype old) ms) of
             (Some ow, Some sz, Some ci, Some ex, Some ca, Some da) \<Rightarrow>
               Some \<lparr>tc_OwnerID = ow, tc_Size = sz, tc_Cid = ci, tc_Expires = ex,
                     tc_Cardinality = ca, tc_Datatype = da\<rparr>
           | _ \<Rightarrow> None))"

definition Contract_of_tmp :: "tmp_contract \<Rightarrow> Contract" where
  "Contract_of_tmp c =
     \<lparr>c_OwnerID = tc_OwnerID c, c_Size = word_of_int (tc_Size c), c_Cid = tc_Cid c,
      c_Expires = tc_Expires c, c_Cardinality = word_of_int (tc_Cardinality c),
      c_Datatype = word_of_int (tc_Datatype c)\<rparr>"

definition loadFromDisk :: "node_env \<Rightarrow> OfferManager \<Rightarrow> OfferManager" where
  "loadFromDisk env om =
     (case om_fs om (contracts_file env) of
        Some (JsonFile j) \<Rightarrow>
          (case json_slice json_to_tmp_contract zero_tmp_contract [] j of
             None \<Rightarrow> om\<lparr>om_contracts := []\<rparr>
           | Some tmp \<Rightarrow> om\<lparr>om_contracts := map Contract_of_tmp tmp\<rparr>)
      | _ \<Rightarrow> om\<lparr>om_contracts := []\<rparr>)"

text \<open>
  The first component is the nil error.  Only the marshalling can fail: the error of
  \<^verbatim>\<open>ioutil.WriteFile\<close> is dropped.
\<close>

definition writeToDisk :: "node_env \<Rightarrow> OfferManager \<Rightarrow> bool \<times> OfferManager" where
  "writeToDisk env om =
     (case json_of_Contracts (om_contracts om) of
        None \<Rightarrow> (False, om)
      | Some j \<Rightarrow>
          (True, if n_writable env (contracts_file env)
                 then om\<lparr>om_fs := (om_fs om)(contracts_file env \<mapsto> JsonFile j)\<rparr> else om))"

text \<open>A new manager has no offer; \<open>fs\<close> and \<open>h\<close> are the file system and commands so far.\<close>

definition NewOfferManager :: "node_env \<Rightarrow> file_system \<Rightarrow> gostring list \<Rightarrow> OfferManager" where
  "NewOfferManager env fs h =
     loadFromDisk env \<lparr>om_contracts = [], om_isOfferSet = False, om_offer = zero_Offer,
       om_fs = fs, om_hist = h, om_spawned = []\<rparr>"

definition storeContract :: "node_env \<Rightarrow> Contract \<Rightarrow> OfferManager \<Rightarrow> bool \<times> OfferManager" where
  "storeContract env c om = writeToDisk env (om\<lparr>om_contracts := om_contracts om @ [c]\<rparr>)"

section \<open>Requests\<close>

text \<open>
  \<^verbatim>\<open>ProcessStorageRequest\<close> in the three pieces its lock operations cut it into: the admission test
  before the lock, the hosting of the content, and the section under the lock.
\<close>

definition admits :: "OfferManager \<Rightarrow> Contract \<Rightarrow> bool" where
  "admits om c \<longleftrightarrow> om_isOfferSet om \<and> o_Capacity (om_offer om) > c_Size c"

definition psr_host :: "node_env \<Rightarrow> Contract \<Rightarrow> OfferManager \<Rightarrow> bool \<times> OfferManager" where
  "psr_host env c om =
     (case HostContent (n_ipfs env) (c_Cid c) (om_hist om) of
        (ok, h) \<Rightarrow> (ok, om\<lparr>om_hist := h\<rparr>))"

definition psr_commit :: "node_env \<Rightarrow> Contract \<Rightarrow> OfferManager \<Rightarrow> bool \<times> OfferManager" where
  "psr_commit env c om =
     (case storeContract env c om of
        (False, om') \<Rightarrow> (False, om')
      | (True, om') \<Rightarrow>
          (True, om'\<lparr>om_offer := (om_offer om')
                        \<lparr>o_Capacity := o_Capacity (om_offer om') - c_Size c\<rparr>\<rparr>))"

definition ProcessStorageRequest ::
  "node_env \<Rightarrow> StorageRequest \<Rightarrow> OfferManager \<Rightarrow> StorageResponse \<times> OfferManager"
where
  "ProcessStorageRequest env request om =
     (let resp = (\<lambda>d. \<lparr>SP_Multiaddr = n_Multiaddr env, SP_Done = d\<rparr>)
      in if admits om (SQ_Contract request)
         then (case psr_host env (SQ_Contract request) om of
                 (False, om1) \<Rightarrow> (resp False, om1)
               | (True, om1) \<Rightarrow>
                   (case psr_commit env (SQ_Contract request) om1 of
                      (d, om2) \<Rightarrow> (resp d, om2)))
         else (resp False, om))"

text \<open>A retrieval request is answered for six minutes; the signature is not looked at here.\<close>

definition ProcessRetrievalRequest ::
  "gotime \<Rightarrow> RetrievalRequest \<Rightarrow> OfferManager \<Rightarrow> RetrievalResponse"
where
  "ProcessRetrievalRequest now request om =
     (if Before (add_secs (RQ_Timestamp request) 360) now then \<lparr>RP_IpfsLinks = []\<rparr>
      else \<lparr>RP_IpfsLinks =
              map c_Cid (filter (\<lambda>c. c_OwnerID c = RQ_OwnerID request) (om_contracts om))\<rparr>)"

section \<open>The offer\<close>

text \<open>\<^verbatim>\<open>True\<close> is the nil error.  An offer already set gets the new capacity and the call an error.\<close>

definition SetOffer :: "node_env \<Rightarrow> gotime \<Rightarrow> uint32 \<Rightarrow> OfferManager \<Rightarrow> bool \<times> OfferManager" where
  "SetOffer env now capacity om =
     (if om_isOfferSet om
      then (False, om\<lparr>om_offer := (om_offer om)\<lparr>o_Capacity := capacity\<rparr>\<rparr>)
      else (True, om\<lparr>om_offer := \<lparr>o_Multiaddr = n_Multiaddr env, o_Capacity = capacity,
                                 o_Timestamp = now, o_Signature = ''signed: lmao''\<rparr>,
                     om_isOfferSet := True\<rparr>))"

definition IsOfferSet :: "OfferManager \<Rightarrow> bool" where
  "IsOfferSet om = om_isOfferSet om"

text \<open>The text an offer's signature covers.\<close>

definition offer_text :: "Offer \<Rightarrow> gostring" where
  "offer_text x = o_Multiaddr x @ FormatUint (unat (o_Capacity x)) @
     FormatInt (sint (Unix (o_Timestamp x)))"

definition updateOffer :: "node_env \<Rightarrow> gotime \<Rightarrow> OfferManager \<Rightarrow> OfferManager" where
  "updateOffer env now om =
     (let x = (om_offer om)\<lparr>o_Multiaddr := n_Multiaddr env, o_Timestamp := now\<rparr>
      in case n_sign env (n_ID env) (offer_text x) of
           None \<Rightarrow> om\<lparr>om_offer := x\<rparr>
         | Some sig \<Rightarrow> om\<lparr>om_offer := x\<lparr>o_Signature := sig\<rparr>\<rparr>)"

definition GetContracts :: "OfferManager \<Rightarrow> Contract list" where
  "GetContracts om = om_contracts om"

definition GetOffer :: "node_env \<Rightarrow> gotime \<Rightarrow> OfferManager \<Rightarrow> Offer \<times> OfferManager" where
  "GetOffer env now om = (let om' = updateOffer env now om in (om_offer om', om'))"

section \<open>Trimming expired contracts\<close>

text \<open>
  The indices collected before the lock is taken; \<open>clock i\<close> is the clock when contract \<open>i\<close> is
  looked at.
\<close>

definition expired :: "gotime \<Rightarrow> Contract \<Rightarrow> bool" where
  "expired now c = Before (c_Expires c) now"

definition expired_indices :: "(nat \<Rightarrow> gotime) \<Rightarrow> Contract list \<Rightarrow> nat list" where
  "expired_indices clock cs = filter (\<lambda>i. expired (clock i) (cs ! i)) [0..<length cs]"

text \<open>
  The copying loop of \<^verbatim>\<open>contractTrimmer\<close>.  \<open>toTrim\<close> ends with the marker -1, \<open>ix\<close> is the loop
  index, \<open>new\<close> the slice made beforehand with zero contracts, \<open>nix\<close> and \<open>tix\<close> the two cursors;
  the loop ends at the marker as well as at the end of the slice.
\<close>

definition trim_one :: "Contract \<Rightarrow> OfferManager \<Rightarrow> OfferManager" where
  "trim_one c om =
     (let om1 = om\<lparr>om_spawned := om_spawned om @ [c_Cid c]\<rparr>
      in if om_isOfferSet om
         then om1\<lparr>om_offer := (om_offer om)\<lparr>o_Capacity := o_Capacity (om_offer om) + c_Size c\<rparr>\<rparr>
         else om1)"

fun trim_loop ::
  "int list \<Rightarrow> nat \<Rightarrow> Contract list \<Rightarrow> Contract list \<Rightarrow> nat \<Rightarrow> nat \<Rightarrow> OfferManager \<Rightarrow>
   panic + Contract list \<times> OfferManager"
where
  "trim_loop toTrim ix [] new nix tix om = Inr (new, om)"
| "trim_loop toTrim ix (c # cs) new nix tix om =
     (if tix \<ge> length toTrim then Inl IndexOutOfRange
      else if int ix = toTrim ! tix
      then trim_loop toTrim (Suc ix) cs new nix (Suc tix) (trim_one c om)
      else if toTrim ! tix = -1 then Inr (new, om)
      else if nix \<ge> length new then Inl IndexOutOfRange
      else trim_loop toTrim (Suc ix) cs (new[nix := c]) (Suc nix) tix om)"

text \<open>The section under the lock, for indices collected earlier.\<close>

definition trim_apply :: "node_env \<Rightarrow> nat list \<Rightarrow> OfferManager \<Rightarrow> panic + OfferManager" where
  "trim_apply env toTrim om =
     (if toTrim = [] then Inr om
      else if length (om_contracts om) < length toTrim then Inl MakeSliceLen
      else (case trim_loop (map int toTrim @ [-1]) 0 (om_contracts om)
                   (replicate (length (om_contracts om) - length toTrim) zero_Contract) 0 0 om of
              Inl p \<Rightarrow> Inl p
            | Inr (new, om') \<Rightarrow> Inr (snd (writeToDisk env (om'\<lparr>om_contracts := new\<rparr>)))))"

text \<open>One tick of \<^verbatim>\<open>contractTrimmer\<close> with nothing in between.\<close>

definition contractTrimmer_tick ::
  "node_env \<Rightarrow> (nat \<Rightarrow> gotime) \<Rightarrow> OfferManager \<Rightarrow> panic + OfferManager"
where
  "contractTrimmer_tick env clock om = trim_apply env (expired_indices clock (om_contracts om)) om"

section \<open>What the trimming loop computes\<close>

text \<open>
  \<open>idx k fs\<close> lists the positions of the flags that are set, \<open>flagged\<close> the elements they mark,
  and \<open>trimmed\<close> the elements the loop copies: the unmarked ones before the last mark.
\<close>

fun idx :: "nat \<Rightarrow> bool list \<Rightarrow> nat list" where
  "idx k [] = []"
| "idx k (f # fs) = (if f then k # idx (Suc k) fs else idx (Suc k) fs)"

fun flagged :: "bool list \<Rightarrow> 'a list \<Rightarrow> 'a list" where
  "flagged (f # fs) (c # cs) = (if f then c # flagged fs cs else flagged fs cs)"
| "flagged _ _ = []"

fun trimmed :: "bool list \<Rightarrow> 'a list \<Rightarrow> 'a list" where
  "trimmed (f # fs) (c # cs) =
     (if f then trimmed fs cs else if True \<in> set fs then c # trimmed fs cs else [])"
| "trimmed _ _ = []"

lemma idx_ge: "i \<in> set (idx k fs) \<Longrightarrow> k \<le> i"
  by (induction k fs rule: idx.induct) (auto split: if_splits dest: Suc_leD)

lemma idx_Nil_iff: "idx k fs = [] \<longleftrightarrow> True \<notin> set fs"
  by (induction k fs rule: idx.induct) auto

lemma length_idx: "length fs = length cs \<Longrightarrow> length (idx k fs) + length (trimmed fs cs) \<le> length cs"
proof (induction fs arbitrary: k cs)
  case (Cons f fs)
  then obtain c cs' where cs: "cs = c # cs'" "length fs = length cs'" by (cases cs) auto
  show ?case using Cons.IH [OF cs(2), of "Suc k"] cs idx_Nil_iff [of "Suc k" fs] by auto
qed simp

lemma trimmed_no_flag: "True \<notin> set fs \<Longrightarrow> trimmed fs cs = []"
  by (cases "(fs, cs)" rule: trimmed.cases) auto

lemma trim_loop_eq:
  assumes "length fs = length cs" and "toTrim = pre @ map int (idx ix fs) @ [-1]"
    and "tix = length pre" and "nix + length (trimmed fs cs) \<le> length new"
  shows "trim_loop toTrim ix cs new nix tix om =
         Inr (take nix new @ trimmed fs cs @ drop (nix + length (trimmed fs cs)) new,
              fold trim_one (flagged fs cs) om)"
  using assms
proof (induction fs arbitrary: cs pre ix new nix tix om)
  case Nil
  then show ?case by simp
next
  case (Cons f fs)
  then obtain c cs' where cs: "cs = c # cs'" "length fs = length cs'" by (cases cs) auto
  show ?case
  proof (cases f)
    case True
    have "trim_loop toTrim (Suc ix) cs' new nix (Suc tix) (trim_one c om) =
        Inr (take nix new @ trimmed fs cs' @ drop (nix + length (trimmed fs cs')) new,
             fold trim_one (flagged fs cs') (trim_one c om))"
      by (rule Cons.IH [of _ "pre @ [int ix]"]) (use Cons.prems cs True in auto)
    with Cons.prems cs True show ?thesis by simp
  next
    case nf: False
    show ?thesis
    proof (cases "idx (Suc ix) fs")
      case Nil
      then have "True \<notin> set fs" by (simp add: idx_Nil_iff)
      moreover from this have "flagged fs cs' = []"
        by (induction fs cs' rule: flagged.induct) auto
      ultimately show ?thesis using Cons.prems cs nf Nil by simp
    next
      case (Cons k ks)
      then have k: "Suc ix \<le> k" using idx_ge [of k "Suc ix" fs] by simp
      have some: "True \<in> set fs" using idx_Nil_iff [of "Suc ix" fs] Cons by auto
      have nix: "nix < length new" using Cons.prems(4) cs nf some by simp
      have "trim_loop toTrim (Suc ix) cs' (new[nix := c]) (Suc nix) tix om =
          Inr (take (Suc nix) (new[nix := c]) @ trimmed fs cs' @
                 drop (Suc nix + length (trimmed fs cs')) (new[nix := c]),
               fold trim_one (flagged fs cs') om)"
        by (rule Cons.IH [of _ pre]) (use Cons.prems cs nf some in auto)
      moreover have "take (Suc nix) (new[nix := c]) = take nix new @ [c]"
        using nix by (simp add: take_Suc_conv_app_nth)
      ultimately show ?thesis using Cons.prems cs nf some Cons k nix by simp
    qed
  qed
qed

lemma trim_one_frame [simp]:
  "om_contracts (trim_one c om) = om_contracts om" "om_isOfferSet (trim_one c om) = om_isOfferSet om"
  "om_fs (trim_one c om) = om_fs om" "om_hist (trim_one c om) = om_hist om"
  "om_spawned (trim_one c om) = om_spawned om @ [c_Cid c]"
  by (simp_all add: trim_one_def Let_def)

lemma fold_trim_one_frame:
  "om_contracts (fold trim_one cs om) = om_contracts om"
  "om_isOfferSet (fold trim_one cs om) = om_isOfferSet om"
  "om_fs (fold trim_one cs om) = om_fs om" "om_hist (fold trim_one cs om) = om_hist om"
  "om_spawned (fold trim_one cs om) = om_spawned om @ map c_Cid cs"
  by (induction cs arbitrary: om) simp_all

lemma fold_trim_one_capacity:
  "o_Capacity (om_offer (fold trim_one cs om)) =
     o_Capacity (om_offer om) + (if om_isOfferSet om then sum_list (map c_Size cs) else 0)"
  by (induction cs arbitrary: om) (auto simp: trim_one_def Let_def add.assoc)

lemma writeToDisk_frame:
  "om_contracts (snd (writeToDisk env om)) = om_contracts om"
  "om_isOfferSet (snd (writeToDisk env om)) = om_isOfferSet om"
  "om_offer (snd (writeToDisk env om)) = om_offer om"
  "om_hist (snd (writeToDisk env om)) = om_hist om"
  "om_spawned (snd (writeToDisk env om)) = om_spawned om"
  by (simp_all add: writeToDisk_def split: option.splits)

text \<open>The whole section under the lock, for any set of marked positions.\<close>

lemma trim_apply_flags:
  assumes "length fs = length (om_contracts om)"
  shows "\<exists>om'. trim_apply env (idx 0 fs) om = Inr om' \<and>
    om_contracts om' =
      (if True \<in> set fs
       then trimmed fs (om_contracts om) @
            replicate (length (om_contracts om) - length (idx 0 fs)
                       - length (trimmed fs (om_contracts om))) zero_Contract
       else om_contracts om) \<and>
    om_isOfferSet om' = om_isOfferSet om \<and>
    o_Capacity (om_offer om') = o_Capacity (om_offer om) +
      (if om_isOfferSet om then sum_list (map c_Size (flagged fs (om_contracts om))) else 0) \<and>
    om_spawned om' = om_spawned om @ map c_Cid (flagged fs (om_contracts om))"
proof (cases "True \<in> set fs")
  case True
  let ?cs = "om_contracts om"
  let ?new = "replicate (length ?cs - length (idx 0 fs)) zero_Contract"
  note len = length_idx [OF assms, of 0]
  have loop: "trim_loop (map int (idx 0 fs) @ [-1]) 0 ?cs ?new 0 0 om =
     Inr (trimmed fs ?cs @ drop (length (trimmed fs ?cs)) ?new, fold trim_one (flagged fs ?cs) om)"
    using trim_loop_eq [OF assms, of "map int (idx 0 fs) @ [-1]" "[]" 0 0 0 ?new om] len by simp
  have "idx 0 fs \<noteq> []" using True by (simp add: idx_Nil_iff)
  then show ?thesis
    using True len loop
    by (simp add: trim_apply_def writeToDisk_frame fold_trim_one_frame fold_trim_one_capacity)
next
  case False
  then have "flagged fs cs = []" for cs :: "Contract list"
    by (induction fs cs rule: flagged.induct) auto
  with False show ?thesis by (simp add: trim_apply_def idx_Nil_iff)
qed

lemma idx_filter: "idx k fs = filter (\<lambda>i. fs ! (i - k)) [k..<k + length fs]"
proof (induction fs arbitrary: k)
  case (Cons f fs)
  define L where "L = [Suc k..<Suc k + length fs]"
  have upt: "[k..<k + length (f # fs)] = k # L"
    unfolding L_def by (subst upt_conv_Cons) simp_all
  have "filter (\<lambda>i. (f # fs) ! (i - k)) L = filter (\<lambda>i. fs ! (i - Suc k)) L"
    by (rule filter_cong) (auto simp: L_def nth_Cons' Suc_diff_Suc)
  moreover have "idx (Suc k) fs = filter (\<lambda>i. fs ! (i - Suc k)) L"
    unfolding L_def by (rule Cons)
  ultimately show ?case unfolding upt by (cases f) simp_all
qed simp

definition expiry_flags :: "(nat \<Rightarrow> gotime) \<Rightarrow> Contract list \<Rightarrow> bool list" where
  "expiry_flags clock cs = map (\<lambda>i. expired (clock i) (cs ! i)) [0..<length cs]"

lemma expired_indices_idx: "expired_indices clock cs = idx 0 (expiry_flags clock cs)"
  by (auto simp: expired_indices_def idx_filter expiry_flags_def intro: filter_cong)

lemma length_expiry_flags [simp]: "length (expiry_flags clock cs) = length cs"
  by (simp add: expiry_flags_def)

lemma expiry_flags_const: "expiry_flags (\<lambda>_. now) cs = map (expired now) cs"
  by (rule nth_equalityI) (simp_all add: expiry_flags_def)

text \<open>With one reading of the clock the marks are a predicate on the contracts.\<close>

lemma flagged_map: "flagged (map P cs) cs = filter P cs"
  by (induction cs) auto

lemma trimmed_map_no: "\<forall>c\<in>set cs. \<not> P c \<Longrightarrow> trimmed (map P cs) cs = []"
  by (rule trimmed_no_flag) auto

lemma trimmed_map_split:
  "P e \<Longrightarrow> \<forall>c\<in>set zs. \<not> P c \<Longrightarrow>
   trimmed (map P (ys @ e # zs)) (ys @ e # zs) = filter (\<lambda>c. \<not> P c) ys"
  by (induction ys) (auto simp: trimmed_map_no)

lemma length_idx_map: "length (idx k (map P cs)) = length (filter P cs)"
  by (induction cs arbitrary: k) auto

section \<open>Properties of the offer manager\<close>

text \<open>Facts about the locked section that both the sequential and the concurrent proofs use.\<close>

lemma psr_host_frame:
  assumes "psr_host env c om = (ok, om')"
  shows "om_contracts om' = om_contracts om" "om_isOfferSet om' = om_isOfferSet om"
    "om_offer om' = om_offer om" "om_fs om' = om_fs om" "om_spawned om' = om_spawned om"
  using assms by (auto simp: psr_host_def split: prod.splits)

definition storable :: "Contract \<Rightarrow> bool" where
  "storable c \<longleftrightarrow> 0 \<le> Year (c_Expires c) \<and> Year (c_Expires c) < 10000"

lemma writeToDisk_ok_iff: "fst (writeToDisk env om) \<longleftrightarrow> (\<forall>c\<in>set (om_contracts om). storable c)"
  by (auto simp: writeToDisk_def storable_def json_of_Contracts_None_iff split: option.splits
      dest: sym [of None])
    (metis json_of_Contracts_None_iff option.distinct(1))+

lemma psr_commit_eq:
  "psr_commit env c om =
     (let om' = snd (writeToDisk env (om\<lparr>om_contracts := om_contracts om @ [c]\<rparr>)) in
      if \<forall>x\<in>set (om_contracts om @ [c]). storable x
      then (True, om'\<lparr>om_offer := (om_offer om)\<lparr>o_Capacity := o_Capacity (om_offer om) - c_Size c\<rparr>\<rparr>)
      else (False, om'))"
proof -
  define w where "w = writeToDisk env (om\<lparr>om_contracts := om_contracts om @ [c]\<rparr>)"
  have "fst w \<longleftrightarrow> (\<forall>x\<in>set (om_contracts om @ [c]). storable x)"
    by (simp add: w_def writeToDisk_ok_iff)
  moreover have "om_offer (snd w) = om_offer om" by (simp add: w_def writeToDisk_frame)
  ultimately show ?thesis
    by (cases w) (auto simp: psr_commit_def storeContract_def w_def [symmetric] Let_def
        split: bool.splits)
qed

lemma psr_commit_frame:
  assumes "psr_commit env c om = (d, om')"
  shows "om_contracts om' = om_contracts om @ [c]" "om_isOfferSet om' = om_isOfferSet om"
    "d \<longleftrightarrow> (\<forall>x\<in>set (om_contracts om @ [c]). storable x)"
    "o_Capacity (om_offer om') = o_Capacity (om_offer om) - (if d then c_Size c else 0)"
  using assms by (auto simp: psr_commit_eq Let_def writeToDisk_frame split: if_splits)

lemma trim_tick_split:
  assumes xs: "om_contracts om = ys @ e # zs" and e: "expired now e"
    and zs: "\<forall>c\<in>set zs. \<not> expired now c"
  obtains om' where "contractTrimmer_tick env (\<lambda>_. now) om = Inr om'"
    and "om_contracts om' = filter (\<lambda>c. \<not> expired now c) ys @ replicate (length zs) zero_Contract"
proof -
  let ?P = "expired now"
  define xs where "xs = om_contracts om"
  have tr: "trimmed (map ?P xs) xs = filter (\<lambda>c. \<not> ?P c) ys"
    unfolding xs_def xs using e zs by (rule trimmed_map_split)
  have "length (filter ?P ys) + length (filter (\<lambda>c. \<not> ?P c) ys) = length ys"
    by (rule sum_length_filter_compl)
  moreover have "length (filter ?P xs) = Suc (length (filter ?P ys))"
    using e zs by (simp add: xs_def xs filter_empty_conv)
  moreover have "length xs = length ys + Suc (length zs)" by (simp add: xs_def xs)
  ultimately have n: "length xs - length (filter ?P xs) - length (filter (\<lambda>c. \<not> ?P c) ys) = length zs"
    by simp
  have "length (map ?P xs) = length (om_contracts om)" by (simp add: xs_def)
  from trim_apply_flags [OF this, of env] obtain om' where
    "trim_apply env (idx 0 (map ?P xs)) om = Inr om'"
    "om_contracts om' = (if True \<in> set (map ?P xs)
       then trimmed (map ?P xs) xs @
         replicate (length xs - length (idx 0 (map ?P xs)) - length (trimmed (map ?P xs) xs)) zero_Contract
       else xs)"
    unfolding xs_def [symmetric] by blast
  moreover have "True \<in> set (map ?P xs)" using e by (simp add: xs_def xs)
  ultimately show thesis
    using that n unfolding contractTrimmer_tick_def expired_indices_idx expiry_flags_const
      xs_def [symmetric] tr length_idx_map by (simp split: if_splits)
qed

text \<open>Trimming removes exactly the expired contracts when the last contract of the slice has
  expired: the surviving slice is the list of the live ones in order, and nothing panics.\<close>

theorem trim_last_expired:
  assumes "om_contracts om = cs @ [e]" and "expired now e"
  shows "\<exists>om'. contractTrimmer_tick env (\<lambda>_. now) om = Inr om' \<and>
    om_contracts om' = filter (\<lambda>c. \<not> expired now c) (om_contracts om)"
  by (rule trim_tick_split [of om cs e "[]" now env]) (use assms in auto)

text \<open>C6: In general the loop stops at the last expired contract: with \<open>e\<close> the last expired
  contract of the slice, the live contracts before it survive and every contract after it is
  replaced by a zero contract.\<close>

theorem trim_overwrites_tail:
  assumes "om_contracts om = ys @ e # zs" and "expired now e"
    and "\<forall>c\<in>set zs. \<not> expired now c"
  shows "\<exists>om'. contractTrimmer_tick env (\<lambda>_. now) om = Inr om' \<and>
    om_contracts om' =
      filter (\<lambda>c. \<not> expired now c) ys @ replicate (length zs) zero_Contract"
  by (rule trim_tick_split [OF assms, of env]) blast

text \<open>C7: For every reading of the clock a tick returns to the offered capacity the sizes of exactly
  the contracts it found expired (if an offer is set), hands exactly their contents to the
  unpinning goroutines in order, keeps the number of slots of the slice equal to the number of
  contracts not found expired, and never panics.\<close>

theorem trim_restores_capacity:
  fixes env clock om
  defines "gone \<equiv> flagged (expiry_flags clock (om_contracts om)) (om_contracts om)"
  shows "\<exists>om'. contractTrimmer_tick env clock om = Inr om' \<and>
    o_Capacity (om_offer om') = o_Capacity (om_offer om) +
      (if om_isOfferSet om then sum_list (map c_Size gone) else 0) \<and>
    om_spawned om' = om_spawned om @ map c_Cid gone \<and>
    length (om_contracts om') + length gone = length (om_contracts om)"
proof -
  let ?xs = "om_contracts om" and ?fs = "expiry_flags clock (om_contracts om)"
  have len: "length (idx 0 ?fs) = length (flagged ?fs ?xs)"
  proof -
    have "length fs = length cs \<Longrightarrow> length (idx k fs) = length (flagged fs cs)"
      for fs k and cs :: "Contract list"
      by (induction fs cs arbitrary: k rule: flagged.induct) auto
    then show ?thesis by simp
  qed
  note bound = length_idx [of ?fs ?xs 0]
  from trim_apply_flags [of ?fs om env] obtain om' where om':
    "trim_apply env (idx 0 ?fs) om = Inr om'"
    "om_contracts om' = (if True \<in> set ?fs
       then trimmed ?fs ?xs @ replicate (length ?xs - length (idx 0 ?fs) - length (trimmed ?fs ?xs))
              zero_Contract else ?xs)"
    "o_Capacity (om_offer om') = o_Capacity (om_offer om) +
       (if om_isOfferSet om then sum_list (map c_Size gone) else 0)"
    "om_spawned om' = om_spawned om @ map c_Cid gone"
    unfolding gone_def by auto
  have "length (om_contracts om') + length gone = length ?xs"
  proof (cases "True \<in> set ?fs")
    case True
    then show ?thesis using om'(2) bound len by (simp add: gone_def)
  next
    case False
    then have "idx 0 ?fs = []" by (simp add: idx_Nil_iff)
    then show ?thesis using om'(2) len False by (simp add: gone_def)
  qed
  with om' show ?thesis
    by (auto simp: contractTrimmer_tick_def expired_indices_idx)
qed

lemma ProcessStorageRequest_cases:
  fixes env request om
  defines "c \<equiv> SQ_Contract request"
  obtains (refused) "\<not> admits om c"
      "ProcessStorageRequest env request om = (\<lparr>SP_Multiaddr = n_Multiaddr env, SP_Done = False\<rparr>, om)"
  | (unhosted) om1 where "admits om c" "psr_host env c om = (False, om1)"
      "ProcessStorageRequest env request om = (\<lparr>SP_Multiaddr = n_Multiaddr env, SP_Done = False\<rparr>, om1)"
  | (committed) om1 d om2 where "admits om c" "psr_host env c om = (True, om1)"
      "psr_commit env c om1 = (d, om2)"
      "ProcessStorageRequest env request om = (\<lparr>SP_Multiaddr = n_Multiaddr env, SP_Done = d\<rparr>, om2)"
  unfolding c_def ProcessStorageRequest_def Let_def
  by (cases "admits om (SQ_Contract request)"; cases "psr_host env (SQ_Contract request) om";
      cases "fst (psr_host env (SQ_Contract request) om)";
      cases "psr_commit env (SQ_Contract request) (snd (psr_host env (SQ_Contract request) om))") auto

lemma admits_iff: "admits om c \<longleftrightarrow> om_isOfferSet om \<and> unat (c_Size c) < unat (o_Capacity (om_offer om))"
  by (simp add: admits_def word_less_nat_alt)

lemma psr_capacity:
  assumes "ProcessStorageRequest env request om = (resp, om')"
  shows "unat (o_Capacity (om_offer om')) + (if SP_Done resp then unat (c_Size (SQ_Contract request)) else 0) =
    unat (o_Capacity (om_offer om))"
proof (cases rule: ProcessStorageRequest_cases [where env = env and request = request and om = om])
  case (committed om1 d om2)
  have "c_Size (SQ_Contract request) \<le> o_Capacity (om_offer om)"
    using committed(1) by (simp add: admits_def order_less_imp_le)
  then show ?thesis
    using assms committed psr_host_frame [OF committed(2)] psr_commit_frame [OF committed(3)]
    by (auto simp: word_sub_no_wrap)
qed (use assms psr_host_frame in auto)

text \<open>C3: The outcome of a storage request on every branch: it is accepted exactly when an offer is
  set, the free capacity strictly exceeds the contract's size, the content could be pinned and
  every contract then held has an expiry JSON can express; an accepted request takes exactly its
  size from the capacity, without wrap-around, and a refused one leaves the capacity alone; the
  contract is appended whenever the content was pinned, accepted or not.\<close>

theorem storage_request_outcome:
  "case ProcessStorageRequest env request om of
     (resp, om') \<Rightarrow>
       let c = SQ_Contract request;
           hosted = (admits om c \<and> fst (HostContent (n_ipfs env) (c_Cid c) (om_hist om)))
       in SP_Multiaddr resp = n_Multiaddr env \<and>
          SP_Done resp = (hosted \<and> list_all storable (om_contracts om @ [c])) \<and>
          om_contracts om' = (if hosted then om_contracts om @ [c] else om_contracts om) \<and>
          om_isOfferSet om' = om_isOfferSet om \<and>
          unat (o_Capacity (om_offer om')) + (if SP_Done resp then unat (c_Size c) else 0) =
            unat (o_Capacity (om_offer om))"
proof (cases rule: ProcessStorageRequest_cases [where env = env and request = request and om = om])
  case refused
  then show ?thesis by simp
next
  case (unhosted om1)
  then have "fst (HostContent (n_ipfs env) (c_Cid (SQ_Contract request)) (om_hist om)) = False"
    by (simp add: psr_host_def split: prod.splits)
  with unhosted psr_host_frame [OF unhosted(2)] show ?thesis by simp
next
  case (committed om1 d om2)
  have "fst (HostContent (n_ipfs env) (c_Cid (SQ_Contract request)) (om_hist om))"
    using committed(2) by (simp add: psr_host_def split: prod.splits)
  then show ?thesis
    using committed psr_host_frame [OF committed(2)] psr_commit_frame [OF committed(3)]
      psr_capacity [OF committed(4)] by (auto simp: list_all_iff)
qed

text \<open>Requests one after the other.\<close>

fun process_all ::
  "node_env \<Rightarrow> StorageRequest list \<Rightarrow> OfferManager \<Rightarrow> StorageResponse list \<times> OfferManager"
where
  "process_all env [] om = ([], om)"
| "process_all env (r # rs) om =
     (case ProcessStorageRequest env r om of
        (resp, om1) \<Rightarrow> (case process_all env rs om1 of (resps, om2) \<Rightarrow> (resp # resps, om2)))"

definition accepted :: "StorageRequest list \<Rightarrow> StorageResponse list \<Rightarrow> Contract list" where
  "accepted rs resps = map (SQ_Contract \<circ> fst) (filter (SP_Done \<circ> snd) (zip rs resps))"

text \<open>Storage requests handled one after the other never overcommit the offer: the capacity left
  plus the sizes of all accepted contracts is the capacity at the start, as natural numbers.\<close>

theorem sequential_no_overcommit:
  "case process_all env rs om of
     (resps, om') \<Rightarrow>
       unat (o_Capacity (om_offer om')) + sum_list (map (unat \<circ> c_Size) (accepted rs resps)) =
       unat (o_Capacity (om_offer om))"
proof (induction rs arbitrary: om)
  case Nil
  then show ?case by (simp add: accepted_def)
next
  case (Cons r rs)
  obtain resp om1 where 1: "ProcessStorageRequest env r om = (resp, om1)" by fastforce
  obtain resps om2 where 2: "process_all env rs om1 = (resps, om2)" by fastforce
  note psr_capacity [OF 1]
  with Cons.IH [of om1] show ?case by (auto simp: 1 2 accepted_def)
qed


text \<open>A retrieval request is answered with exactly the contents of its owner's contracts.\<close>

text \<open>A retrieval request at most six minutes old is answered with the cids of exactly the held
  contracts that name the request's owner, in order; an older one with nothing.  The signature
  plays no part.\<close>

theorem retrieval_response_exact:
  "RP_IpfsLinks (ProcessRetrievalRequest now request om) =
     (if Before (add_secs (RQ_Timestamp request) 360) now then []
      else [c_Cid c. c \<leftarrow> om_contracts om, c_OwnerID c = RQ_OwnerID request]) \<and>
   ProcessRetrievalRequest now (request\<lparr>RQ_Signature := sig\<rparr>) om =
     ProcessRetrievalRequest now request om"
proof -
  have "map c_Cid (filter P cs) = [c_Cid c. c \<leftarrow> cs, P c]" for P cs
    by (induction cs) auto
  note this [of "\<lambda>c. c_OwnerID c = RQ_OwnerID request" "om_contracts om"]
  then show ?thesis by (simp add: ProcessRetrievalRequest_def)
qed

section \<open>The contracts file survives a restart\<close>

lemma json_tmp_contract_roundtrip:
  assumes "json_wf_Contract c"
  shows "\<exists>j. json_of_Contract c = Some j \<and>
    (\<forall>old. \<exists>t. json_to_tmp_contract old j = Some t \<and> Contract_of_tmp t = c)"
proof -
  from assms have "json_wf_time (c_Expires c)" by (simp add: json_wf_Contract_def)
  then obtain e where e: "json_of_time (c_Expires c) = Some e"
      "\<And>old. json_time old e = Some (c_Expires c)"
    using json_wf_time_roundtrip by blast
  let ?j = "JObj [(''owner_id'', json_of_string (c_OwnerID c)), (''size'', json_of_uint32 (c_Size c)),
      (''cid'', json_of_string (c_Cid c)), (''expires'', e),
      (''cardinality'', json_of_uint32 (c_Cardinality c)),
      (''datatype'', json_of_uint32 (c_Datatype c))]"
  have "json_of_Contract c = Some ?j" using e(1) by (simp add: json_of_Contract_def)
  moreover have "json_to_tmp_contract old ?j = Some \<lparr>tc_OwnerID = c_OwnerID c,
      tc_Size = uint (c_Size c), tc_Cid = c_Cid c, tc_Expires = c_Expires c,
      tc_Cardinality = uint (c_Cardinality c), tc_Datatype = uint (c_Datatype c)\<rparr>" for old
  proof -
    have "utf8_coerce (c_OwnerID c) = c_OwnerID c" "utf8_coerce (c_Cid c) = c_Cid c"
      using assms by (simp_all add: json_wf_Contract_def valid_utf8_def)
    with e(2) show ?thesis by (simp add: json_to_tmp_contract_def)
  qed
  ultimately show ?thesis by (auto simp: Contract_of_tmp_def)
qed

lemma json_tmp_contracts_roundtrip:
  assumes "\<forall>c\<in>set cs. json_wf_Contract c"
  shows "\<exists>js. json_all json_of_Contract cs = Some js \<and>
    (\<forall>old. \<exists>ts. json_elems json_to_tmp_contract zero_tmp_contract old js = Some ts \<and>
      map Contract_of_tmp ts = cs)"
  using assms
proof (induction cs)
  case (Cons c cs)
  then obtain js where js: "json_all json_of_Contract cs = Some js"
    "\<And>old. \<exists>ts. json_elems json_to_tmp_contract zero_tmp_contract old js = Some ts \<and>
      map Contract_of_tmp ts = cs" by auto
  obtain j where j: "json_of_Contract c = Some j"
    "\<And>old. \<exists>t. json_to_tmp_contract old j = Some t \<and> Contract_of_tmp t = c"
    using json_tmp_contract_roundtrip [of c] Cons.prems by auto
  have "\<exists>ts. json_elems json_to_tmp_contract zero_tmp_contract old (j # js) = Some ts \<and>
      map Contract_of_tmp ts = c # cs" for old
    using js(2) [of "tl old"] j(2) [of "case old of [] \<Rightarrow> zero_tmp_contract | x # _ \<Rightarrow> x"] by force
  with js(1) j(1) show ?case by simp
qed simp

text \<open>C31: What \<^verbatim>\<open>writeToDisk\<close> saves, a manager created later for the same node loads: if every held
  contract is well-formed JSON data and the file can be written, the restarted manager holds
  exactly the same contracts.\<close>

theorem restart_recovers_contracts:
  assumes "\<forall>c\<in>set (om_contracts om). json_wf_Contract c"
    and "n_writable env (contracts_file env)"
  shows "om_contracts (NewOfferManager env (om_fs (snd (writeToDisk env om))) h) = om_contracts om"
proof -
  obtain js where js: "json_all json_of_Contract (om_contracts om) = Some js"
    "\<And>old. \<exists>ts. json_elems json_to_tmp_contract zero_tmp_contract old js = Some ts \<and>
      map Contract_of_tmp ts = om_contracts om"
    using json_tmp_contracts_roundtrip [OF assms(1)] by blast
  have "om_fs (snd (writeToDisk env om)) (contracts_file env) = Some (JsonFile (JArr js))"
    using js(1) assms(2) by (simp add: writeToDisk_def json_of_Contracts_def)
  then show ?thesis using js(2) [of "[]"] by (auto simp: NewOfferManager_def loadFromDisk_def)
qed

section \<open>Witnesses\<close>

text \<open>A node every command and every write of which succeeds.\<close>

definition demo_env :: node_env where
  "demo_env = \<lparr>n_ID = ''QmNode'', n_Multiaddr = ''/ip4/10.0.0.1/tcp/4001/p2p/QmNode'',
     n_sign = (\<lambda>_ _. Some ''sig''), n_getPrivKey = Some ''key'',
     n_ipfs = \<lparr>shell = (\<lambda>_ _. Some []), daemon_start = (\<lambda>_. True), daemon_out = (\<lambda>_ _. [])\<rparr>,
     n_writable = (\<lambda>_. True)\<rparr>"

definition demo_contract :: "gostring \<Rightarrow> uint32 \<Rightarrow> int64 \<Rightarrow> Contract" where
  "demo_contract cid sz ex = \<lparr>c_OwnerID = ''QmOwner'', c_Size = sz, c_Cid = cid,
     c_Expires = time_Unix ex, c_Cardinality = 1, c_Datatype = 0\<rparr>"

definition demo_om :: "Contract list \<Rightarrow> uint32 \<Rightarrow> OfferManager" where
  "demo_om cs cap = \<lparr>om_contracts = cs, om_isOfferSet = True,
     om_offer = zero_Offer\<lparr>o_Capacity := cap\<rparr>, om_fs = Map.empty, om_hist = [], om_spawned = []\<rparr>"

lemma expired_demo:
  "expired (time_Unix now) (demo_contract cid sz ex) \<longleftrightarrow>
     sint (ex + unixToInternal) < sint (now + unixToInternal)"
  by (simp add: expired_def demo_contract_def Before_def time_Unix_def)

lemma storable_far_future: "\<not> storable (demo_contract cid sz 253402300800)"
  by (simp add: storable_def demo_contract_def Year_def Date_def abs_sec_def year_yday_def Let_def
      split: prod.splits)

theorem trim_last_expired_witness:
  "\<exists>om'. contractTrimmer_tick demo_env (\<lambda>_. time_Unix 100)
      (demo_om [demo_contract ''a'' 5 200, demo_contract ''b'' 7 50] 10) = Inr om' \<and>
    om_contracts om' = [demo_contract ''a'' 5 200]"
  using trim_last_expired [of "demo_om [demo_contract ''a'' 5 200, demo_contract ''b'' 7 50] 10"
      "[demo_contract ''a'' 5 200]" "demo_contract ''b'' 7 50" "time_Unix 100" demo_env]
  by (simp add: demo_om_def expired_demo unixToInternal_def)

theorem trim_overwrites_tail_witness:
  "\<exists>om'. contractTrimmer_tick demo_env (\<lambda>_. time_Unix 100)
      (demo_om [demo_contract ''a'' 5 50, demo_contract ''b'' 7 200] 10) = Inr om' \<and>
    om_contracts om' = [zero_Contract]"
  using trim_overwrites_tail [of "demo_om [demo_contract ''a'' 5 50, demo_contract ''b'' 7 200] 10"
      "[]" "demo_contract ''a'' 5 50" "[demo_contract ''b'' 7 200]" "time_Unix 100" demo_env]
  by (simp add: demo_om_def expired_demo unixToInternal_def)


lemma json_wf_demo: "json_wf_Contract (demo_contract ''a'' 5 200)"
proof -
  have "valid_utf8 ''QmOwner''" "valid_utf8 ''a''"
    by (rule valid_utf8_ascii, code_simp)+
  moreover have "json_wf_time (time_Unix 200)"
    by (simp add: json_wf_time_def Year_def Date_def abs_sec_def year_yday_def Let_def
        time_Unix_def Unix_def split: prod.splits)
  ultimately show ?thesis by (simp add: json_wf_Contract_def demo_contract_def)
qed

theorem restart_recovers_contracts_witness:
  "om_contracts (NewOfferManager demo_env
     (om_fs (snd (writeToDisk demo_env (demo_om [demo_contract ''a'' 5 200] 10)))) []) =
   [demo_contract ''a'' 5 200]"
  using restart_recovers_contracts [of "demo_om [demo_contract ''a'' 5 200] 10" demo_env "[]"]
    json_wf_demo
  by (simp add: demo_om_def demo_env_def)

end
