(* ===== verification/Ledger.thy ===== *)
theory Ledger
  imports OfferManager
begin

text \<open>
  What the offer manager promises, stated without its word arithmetic, files, commands and zero
  contracts made on the way: a ledger of the capacity still on offer and the contracts held.  The
  operations of \<^verbatim>\<open>node/offer_manager.go\<close>, done one after the other, refine it.
\<close>

section \<open>The ledger\<close>

record ledger =
  lg_free :: "nat option"          \<comment> \<open>nothing before an offer is set\<close>
  lg_held :: "Contract list"

datatype operation = Store StorageRequest | Promise gotime uint32 | Advertise gotime | Trim "nat \<Rightarrow> gotime"

text \<open>What is held after the contracts marked by \<open>fs\<close> have expired.\<close>

definition remaining :: "bool list \<Rightarrow> Contract list \<Rightarrow> Contract list" where
  "remaining fs cs =
     (if True \<in> set fs
      then trimmed fs cs @ replicate (length cs - length (idx 0 fs) - length (trimmed fs cs)) zero_Contract
      else cs)"

definition weight :: "Contract list \<Rightarrow> nat" where
  "weight cs = sum_list (map (\<lambda>c. unat (c_Size c)) cs)"

text \<open>A step of the ledger for an operation and the answer the caller gets.\<close>

inductive ledger_step :: "operation \<Rightarrow> bool \<Rightarrow> ledger \<Rightarrow> ledger \<Rightarrow> bool" where
  refused: "ledger_step (Store r) False l l"
| accepted: "lg_free l = Some n \<Longrightarrow> c = SQ_Contract r \<Longrightarrow> unat (c_Size c) < n \<Longrightarrow>
    list_all storable (lg_held l @ [c]) \<Longrightarrow>
    ledger_step (Store r) True l \<lparr>lg_free = Some (n - unat (c_Size c)), lg_held = lg_held l @ [c]\<rparr>"
| unsaved: "lg_free l = Some n \<Longrightarrow> c = SQ_Contract r \<Longrightarrow> unat (c_Size c) < n \<Longrightarrow>
    \<not> list_all storable (lg_held l @ [c]) \<Longrightarrow>
    ledger_step (Store r) False l (l\<lparr>lg_held := lg_held l @ [c]\<rparr>)"
| promised: "ok = (lg_free l = None) \<Longrightarrow>
    ledger_step (Promise now capacity) ok l (l\<lparr>lg_free := Some (unat capacity)\<rparr>)"
| advertised: "ledger_step (Advertise now) True l l"
| retired: "fs = expiry_flags clock (lg_held l) \<Longrightarrow>
    ledger_step (Trim clock) True l
      \<lparr>lg_free = map_option (\<lambda>n. (n + weight (flagged fs (lg_held l))) mod 2 ^ 32) (lg_free l),
       lg_held = remaining fs (lg_held l)\<rparr>"

section \<open>Simulation of sequences of operations\<close>

text \<open>
  A machine whose operations never fail and whose every operation is a step of a specification is,
  over every sequence of operations, a run of the specification.
\<close>

locale simulated_machine =
  fixes perform :: "'op \<Rightarrow> 's \<Rightarrow> panic + 'ans \<times> 's"
    and step :: "'op \<Rightarrow> 'ans \<Rightarrow> 'a \<Rightarrow> 'a \<Rightarrow> bool"
    and abs :: "'s \<Rightarrow> 'a"
  assumes simulates: "\<exists>ans s'. perform op s = Inr (ans, s') \<and> step op ans (abs s) (abs s')"

fun perform_all ::
  "('op \<Rightarrow> 's \<Rightarrow> panic + 'ans \<times> 's) \<Rightarrow> 'op list \<Rightarrow> 's \<Rightarrow> panic + 'ans list \<times> 's"
where
  "perform_all f [] s = Inr ([], s)"
| "perform_all f (op # ops) s =
     (case f op s of
        Inl p \<Rightarrow> Inl p
      | Inr (ans, s1) \<Rightarrow>
          (case perform_all f ops s1 of Inl p \<Rightarrow> Inl p | Inr (answers, s2) \<Rightarrow> Inr (ans # answers, s2)))"

fun spec_run :: "('op \<Rightarrow> 'ans \<Rightarrow> 'a \<Rightarrow> 'a \<Rightarrow> bool) \<Rightarrow> 'op list \<Rightarrow> 'ans list \<Rightarrow> 'a \<Rightarrow> 'a \<Rightarrow> bool" where
  "spec_run step [] [] a a' \<longleftrightarrow> a = a'"
| "spec_run step (op # ops) (ans # answers) a a' \<longleftrightarrow> (\<exists>b. step op ans a b \<and> spec_run step ops answers b a')"
| "spec_run step _ _ a a' \<longleftrightarrow> False"

context simulated_machine
begin

lemma simulates_all:
  "\<exists>answers s'. perform_all perform ops s = Inr (answers, s') \<and> spec_run step ops answers (abs s) (abs s')"
proof (induction ops arbitrary: s)
  case (Cons op ops)
  obtain ans s1 where s1: "perform op s = Inr (ans, s1)" "step op ans (abs s) (abs s1)"
    using simulates by blast
  obtain answers s2 where "perform_all perform ops s1 = Inr (answers, s2)"
      "spec_run step ops answers (abs s1) (abs s2)"
    using Cons.IH by blast
  with s1 show ?case by auto
qed simp

end

lemma spec_run_invariant:
  assumes "spec_run step ops answers a a'" and "I a" and "\<And>op. op \<in> set ops \<Longrightarrow> P op"
    and "\<And>op ans a b. step op ans a b \<Longrightarrow> P op \<Longrightarrow> I a \<Longrightarrow> I b"
  shows "I a'"
  using assms(1-3)
proof (induction ops arbitrary: answers a)
  case Nil
  then show ?case by (cases answers) auto
next
  case (Cons op ops)
  then obtain ans answers' b where b: "step op ans a b" "spec_run step ops answers' b a'"
    by (cases answers) auto
  have "I b" using assms(4) [OF b(1)] Cons.prems by simp
  with b(2) show ?case by (rule Cons.IH) (use Cons.prems in simp)
qed

section \<open>The offer manager as such a machine\<close>

fun perform :: "node_env \<Rightarrow> operation \<Rightarrow> OfferManager \<Rightarrow> panic + bool \<times> OfferManager" where
  "perform env (Store r) om =
     (case ProcessStorageRequest env r om of (resp, om') \<Rightarrow> Inr (SP_Done resp, om'))"
| "perform env (Promise now capacity) om = Inr (SetOffer env now capacity om)"
| "perform env (Advertise now) om = Inr (True, snd (GetOffer env now om))"
| "perform env (Trim clock) om =
     (case contractTrimmer_tick env clock om of Inl p \<Rightarrow> Inl p | Inr om' \<Rightarrow> Inr (True, om'))"

definition ledger_of :: "OfferManager \<Rightarrow> ledger" where
  "ledger_of om =
     \<lparr>lg_free = (if om_isOfferSet om then Some (unat (o_Capacity (om_offer om))) else None),
      lg_held = om_contracts om\<rparr>"

lemma ledger_of_simps [simp]:
  "lg_held (ledger_of om) = om_contracts om"
  "lg_free (ledger_of om) = (if om_isOfferSet om then Some (unat (o_Capacity (om_offer om))) else None)"
  by (simp_all add: ledger_of_def)

lemma unat_sum_sizes: "unat (sum_list (map c_Size cs)) = weight cs mod 2 ^ 32"
proof (induction cs)
  case (Cons c cs)
  have "unat (c_Size c + sum_list (map c_Size cs)) = (unat (c_Size c) + weight cs mod 2 ^ 32) mod 2 ^ 32"
    by (simp only: unat_word_ariths Cons) simp
  then show ?case by (simp add: weight_def mod_simps)
qed (simp add: weight_def)

lemma store_simulates:
  "\<exists>d om'. perform env (Store r) om = Inr (d, om') \<and> ledger_step (Store r) d (ledger_of om) (ledger_of om')"
proof (cases rule: ProcessStorageRequest_cases [where env = env and request = r and om = om])
  case refused
  then show ?thesis by (auto intro: ledger_step.refused)
next
  case (unhosted om1)
  then have "ledger_of om1 = ledger_of om" using psr_host_frame [OF unhosted(2)] by (simp add: ledger_of_def)
  with unhosted show ?thesis by (auto intro: ledger_step.refused)
next
  case (committed om1 d om2)
  let ?c = "SQ_Contract r"
  note host = psr_host_frame [OF committed(2)] and commit = psr_commit_frame [OF committed(3)]
  have set: "om_isOfferSet om" and less: "unat (c_Size ?c) < unat (o_Capacity (om_offer om))"
    using committed(1) by (simp_all add: admits_iff)
  have cap: "unat (o_Capacity (om_offer om2)) =
      unat (o_Capacity (om_offer om)) - (if d then unat (c_Size ?c) else 0)"
    using psr_capacity [OF committed(4)] by auto
  have d: "d = list_all storable (om_contracts om @ [?c])" using commit(3) host by (simp add: list_all_iff)
  have "ledger_step (Store r) d (ledger_of om) (ledger_of om2)"
  proof (cases d)
    case True
    then have "ledger_of om2 = \<lparr>lg_free = Some (unat (o_Capacity (om_offer om)) - unat (c_Size ?c)),
        lg_held = lg_held (ledger_of om) @ [?c]\<rparr>"
      using set cap commit(1,2) host by (simp add: ledger_of_def)
    with True d set less show ?thesis
      using ledger_step.accepted [of "ledger_of om" "unat (o_Capacity (om_offer om))" ?c r] by simp
  next
    case False
    then have "ledger_of om2 = (ledger_of om)\<lparr>lg_held := lg_held (ledger_of om) @ [?c]\<rparr>"
      using set cap commit(1,2) host by (simp add: ledger_of_def)
    have "\<not> list_all storable (lg_held (ledger_of om) @ [?c])" using False d by simp
    then have "ledger_step (Store r) False (ledger_of om) (ledger_of om2)"
      unfolding \<open>ledger_of om2 = _\<close> using set less by (intro ledger_step.unsaved) simp_all
    with False show ?thesis by simp
  qed
  with committed show ?thesis by simp
qed

lemma trim_simulates:
  "\<exists>d om'. perform env (Trim clock) om = Inr (d, om') \<and>
     ledger_step (Trim clock) d (ledger_of om) (ledger_of om')"
proof -
  let ?fs = "expiry_flags clock (om_contracts om)"
  from trim_apply_flags [of ?fs om env] obtain om' where om':
    "contractTrimmer_tick env clock om = Inr om'"
    "om_contracts om' = remaining ?fs (om_contracts om)"
    "om_isOfferSet om' = om_isOfferSet om"
    "o_Capacity (om_offer om') = o_Capacity (om_offer om) +
      (if om_isOfferSet om then sum_list (map c_Size (flagged ?fs (om_contracts om))) else 0)"
    unfolding contractTrimmer_tick_def expired_indices_idx remaining_def by auto
  have "om_isOfferSet om \<Longrightarrow> unat (o_Capacity (om_offer om')) =
      (unat (o_Capacity (om_offer om)) + weight (flagged ?fs (om_contracts om))) mod 2 ^ 32"
    unfolding om'(4) by (simp add: unat_word_ariths unat_sum_sizes mod_simps)
  then have eq: "ledger_of om' =
      \<lparr>lg_free = map_option (\<lambda>n. (n + weight (flagged ?fs (lg_held (ledger_of om)))) mod 2 ^ 32)
         (lg_free (ledger_of om)),
       lg_held = remaining ?fs (lg_held (ledger_of om))\<rparr>"
    using om'(2,3) by (simp add: ledger_of_def)
  have "ledger_step (Trim clock) True (ledger_of om) (ledger_of om')"
    unfolding eq by (rule ledger_step.retired) simp
  with om'(1) show ?thesis by (intro exI [of _ True] exI [of _ om']) simp
qed

interpretation offer_machine: simulated_machine "perform env" ledger_step ledger_of for env
proof
  fix op and om :: OfferManager
  show "\<exists>ans om'. perform env op om = Inr (ans, om') \<and> ledger_step op ans (ledger_of om) (ledger_of om')"
  proof (cases op)
    case (Store r)
    then show ?thesis using store_simulates by simp
  next
    case (Promise now capacity)
    have "ledger_of (snd (SetOffer env now capacity om)) = (ledger_of om)\<lparr>lg_free := Some (unat capacity)\<rparr>"
      "fst (SetOffer env now capacity om) = (lg_free (ledger_of om) = None)"
      by (simp_all add: SetOffer_def ledger_of_def)
    with Promise show ?thesis
      by (cases "SetOffer env now capacity om") (auto intro: ledger_step.promised)
  next
    case (Advertise now)
    have "ledger_of (snd (GetOffer env now om)) = ledger_of om"
      by (simp add: GetOffer_def updateOffer_def ledger_of_def Let_def split: option.splits)
    with Advertise show ?thesis by (auto intro: ledger_step.advertised)
  next
    case (Trim clock)
    then show ?thesis using trim_simulates by simp
  qed
qed

text \<open>C1: The offer manager refines the ledger: every sequence of storage requests, offers,
  advertisements and trimmer ticks runs to its end without panicking, and its answers and its
  effect on the free capacity and on the contracts held are those of a run of the ledger.\<close>

theorem operations_refine_ledger:
  "\<exists>answers om'. perform_all (perform env) ops om = Inr (answers, om') \<and>
     spec_run ledger_step ops answers (ledger_of om) (ledger_of om')"
  by (rule offer_machine.simulates_all)

section \<open>The promise is never exceeded\<close>

lemma weight_flagged:
  "length fs = length cs \<Longrightarrow> weight (flagged fs cs) + weight (trimmed fs cs) \<le> weight cs"
proof (induction fs cs rule: flagged.induct)
  case (1 f fs c cs)
  then show ?case by (cases "True \<in> set fs") (auto simp: weight_def)
qed (auto simp: weight_def)

lemma weight_remaining:
  assumes "length fs = length cs"
  shows "weight (flagged fs cs) + weight (remaining fs cs) \<le> weight cs"
proof (cases "True \<in> set fs")
  case True
  have "weight (remaining fs cs) = weight (trimmed fs cs)"
    using True by (simp add: remaining_def weight_def zero_Contract_def sum_list_replicate)
  with weight_flagged [OF assms] show ?thesis by simp
next
  case False
  then have "flagged fs cs = []" by (induction fs cs rule: flagged.induct) auto
  with False show ?thesis by (simp add: remaining_def weight_def)
qed

lemma set_trimmed: "set (trimmed fs cs) \<subseteq> set cs"
  by (induction fs cs rule: trimmed.induct) auto

definition within :: "nat \<Rightarrow> ledger \<Rightarrow> bool" where
  "within bound l \<longleftrightarrow> (\<exists>n. lg_free l = Some n \<and> n + weight (lg_held l) \<le> bound) \<and> list_all storable (lg_held l)"

fun ordinary :: "operation \<Rightarrow> bool" where
  "ordinary (Store r) = storable (SQ_Contract r)"
| "ordinary (Promise _ _) = False"
| "ordinary _ = True"

lemma storable_zero: "storable zero_Contract"
proof -
  have "year_yday (abs_sec zero_time div 86400) = (1, 0)"
    by (simp add: abs_sec_def Unix_zero_time year_yday_def)
  then have "Year zero_time = 1" by (simp add: Year_def Date_def split: prod.splits)
  then show ?thesis by (simp add: storable_def zero_Contract_def)
qed

lemma within_step:
  assumes "ledger_step op ans l l'" and "ordinary op" and "within bound l" and "bound < 2 ^ 32"
  shows "within bound l'"
  using assms
proof (induction rule: ledger_step.induct)
  case (retired fs clock l)
  then obtain n where n: "lg_free l = Some n" "n + weight (lg_held l) \<le> bound" "list_all storable (lg_held l)"
    by (auto simp: within_def)
  have "weight (flagged fs (lg_held l)) + weight (remaining fs (lg_held l)) \<le> weight (lg_held l)"
    by (rule weight_remaining) (simp add: retired(1))
  moreover from this n(2) retired(4) have
    "(n + weight (flagged fs (lg_held l))) mod 2 ^ 32 = n + weight (flagged fs (lg_held l))" by simp
  moreover have "list_all storable (remaining fs (lg_held l))"
    using n(3) set_trimmed [of fs "lg_held l"] by (auto simp: remaining_def list_all_iff storable_zero)
  ultimately show ?case using n by (simp add: within_def)
qed (auto simp: within_def weight_def)


section \<open>Witness\<close>

lemma storable_past: "storable (demo_contract ''a'' 5 50)"
  by (simp add: storable_def demo_contract_def Year_def Date_def abs_sec_def year_yday_def Let_def
      split: prod.splits)


end
