(* ===== verification/Identity.thy ===== *)
theory Identity
  imports OfferManager
begin

text \<open>
  The node's identity (\<^verbatim>\<open>node/node.go\<close>: the private key file, \<^verbatim>\<open>getPrivKey\<close>, \<^verbatim>\<open>sign\<close>, \<^verbatim>\<open>verify\<close>) and the
  signed retrieval requests of \<^verbatim>\<open>node/contract_manager.go\<close>.  The libp2p key and peer-id routines
  are a record of functions; what the properties need of them is stated where it is used.
\<close>

section \<open>Keys\<close>

record ('priv, 'pub) crypto =
  cr_Decode :: "gostring \<Rightarrow> gostring option"                \<comment> \<open>\<^verbatim>\<open>peer.Decode\<close>\<close>
  cr_ExtractPublicKey :: "gostring \<Rightarrow> 'pub option"
  cr_Verify :: "'pub \<Rightarrow> gostring \<Rightarrow> gostring \<Rightarrow> bool option"
  cr_Sign :: "'priv \<Rightarrow> gostring \<Rightarrow> gostring option"
  cr_Generate :: "'priv option"                             \<comment> \<open>\<^verbatim>\<open>GenerateEd25519Key\<close>\<close>
  cr_Marshal :: "'priv \<Rightarrow> gostring option"
  cr_Unmarshal :: "gostring \<Rightarrow> 'priv option"
  cr_Raw :: "'priv \<Rightarrow> gostring option"

text \<open>The key files: their contents, which cannot be read, created, written.\<close>

record key_files =
  kf_files :: "gostring \<rightharpoonup> gostring"
  kf_unreadable :: "gostring \<Rightarrow> bool"
  kf_creatable :: bool
  kf_writable :: bool

definition privKeyFileName :: gostring where
  "privKeyFileName = ''mojkljuc.privkey''"

definition generateNewPrivKey :: "('priv, 'pub, 'z) crypto_scheme \<Rightarrow> 'priv option" where
  "generateNewPrivKey cr = cr_Generate cr"

text \<open>A new key goes to \<open>privKeyFileName\<close>, whatever file was asked for; \<^verbatim>\<open>os.Create\<close> empties it first.\<close>

definition store_new_key ::
  "('priv, 'pub, 'z) crypto_scheme \<Rightarrow> key_files \<Rightarrow> 'priv option \<times> key_files"
where
  "store_new_key cr fs =
     (case generateNewPrivKey cr of
        None \<Rightarrow> (None, fs)
      | Some k \<Rightarrow>
          (case cr_Marshal cr k of
             None \<Rightarrow> (None, fs)
           | Some b \<Rightarrow>
               if \<not> kf_creatable fs then (None, fs)
               else if \<not> kf_writable fs
               then (None, fs\<lparr>kf_files := (kf_files fs)(privKeyFileName \<mapsto> [])\<rparr>)
               else (Some k, fs\<lparr>kf_files := (kf_files fs)(privKeyFileName \<mapsto> b)\<rparr>)))"

definition getPrivateKey ::
  "('priv, 'pub, 'z) crypto_scheme \<Rightarrow> gostring \<Rightarrow> key_files \<Rightarrow> 'priv option \<times> key_files"
where
  "getPrivateKey cr pkFileName fs =
     (if pkFileName = [] then store_new_key cr fs
      else (case kf_files fs pkFileName of
              None \<Rightarrow> store_new_key cr fs
            | Some b \<Rightarrow>
                if kf_unreadable fs pkFileName then (None, fs) else (cr_Unmarshal cr b, fs)))"

section \<open>The passphrase\<close>

text \<open>\<^verbatim>\<open>base64.StdEncoding\<close>: six bits a character, padded to a multiple of four.\<close>

definition base64_char :: "nat \<Rightarrow> char" where
  "base64_char n = ''ABCDEFGHIJKLMNOPQRSTUVWXYZabcdefghijklmnopqrstuvwxyz0123456789+/'' ! (n mod 64)"

fun base64_encode :: "gostring \<Rightarrow> gostring" where
  "base64_encode [] = []"
| "base64_encode [a] =
     (let n = of_char a * 65536
      in [base64_char (n div 262144), base64_char (n div 4096), CHR ''='', CHR ''=''])"
| "base64_encode [a, b] =
     (let n = of_char a * 65536 + of_char b * 256
      in [base64_char (n div 262144), base64_char (n div 4096), base64_char (n div 64), CHR ''=''])"
| "base64_encode (a # b # c # cs) =
     (let n = of_char a * 65536 + of_char b * 256 + of_char c
      in base64_char (n div 262144) # base64_char (n div 4096) # base64_char (n div 64) #
         base64_char n # base64_encode cs)"

definition getPrivKey :: "('priv, 'pub, 'z) crypto_scheme \<Rightarrow> 'priv \<Rightarrow> gostring option" where
  "getPrivKey cr k = map_option base64_encode (cr_Raw cr k)"

section \<open>Signatures\<close>

definition sign ::
  "('priv, 'pub, 'z) crypto_scheme \<Rightarrow> 'priv \<Rightarrow> gostring \<Rightarrow> gostring \<Rightarrow> gostring \<Rightarrow> gostring option"
where
  "sign cr k nodeID ownerID msg = (if ownerID \<noteq> nodeID then None else cr_Sign cr k msg)"

text \<open>The text a retrieval request's signature covers.\<close>

definition retrieval_text :: "RetrievalRequest \<Rightarrow> gostring" where
  "retrieval_text r = RQ_Multiaddr r @ RQ_OwnerID r @ FormatInt (sint (Unix (RQ_Timestamp r)))"

definition PrepareRetrievalRequest ::
  "node_env \<Rightarrow> gotime \<Rightarrow> gostring \<Rightarrow> RetrievalRequest \<times> bool"
where
  "PrepareRetrievalRequest env now ownerID =
     (let request = \<lparr>RQ_Multiaddr = n_Multiaddr env, RQ_OwnerID = ownerID, RQ_Timestamp = now,
                     RQ_Signature = []\<rparr>
      in case n_sign env ownerID (retrieval_text request) of
           None \<Rightarrow> (request, False)
         | Some sig \<Rightarrow> (request\<lparr>RQ_Signature := sig\<rparr>, True))"

datatype signed_message = SignedRetrieval RetrievalRequest | SignedOffer Offer | SignedOther

text \<open>The common end of both branches: find the key in the id, check the signature.\<close>

definition verify_text ::
  "('priv, 'pub, 'z) crypto_scheme \<Rightarrow> gostring \<Rightarrow> gostring \<Rightarrow> gostring \<Rightarrow> bool"
where
  "verify_text cr ownerID str sig =
     (case cr_Decode cr ownerID of
        None \<Rightarrow> False
      | Some pid \<Rightarrow>
          (case cr_ExtractPublicKey cr pid of
             None \<Rightarrow> False
           | Some pub \<Rightarrow> (case cr_Verify cr pub str sig of None \<Rightarrow> False | Some ver \<Rightarrow> ver)))"

text \<open>The text of an offer is built and then replaced by a constant.\<close>

fun verify :: "('priv, 'pub, 'z) crypto_scheme \<Rightarrow> signed_message \<Rightarrow> bool" where
  "verify cr (SignedRetrieval msg) =
     verify_text cr (RQ_OwnerID msg) (retrieval_text msg) (RQ_Signature msg)"
| "verify cr (SignedOffer msg) =
     (let components = strings_Split (o_Multiaddr msg) (CHR ''/'')
      in verify_text cr (last components) ''kek'' (o_Signature msg))"
| "verify cr SignedOther = False"

section \<open>Properties\<close>

text \<open>What the node's own key and id satisfy: its id decodes to a peer id that carries the public
  key, and this key accepts what the private key signs.\<close>

definition own_key :: "('priv, 'pub, 'z) crypto_scheme \<Rightarrow> 'priv \<Rightarrow> gostring \<Rightarrow> bool" where
  "own_key cr k nodeID \<longleftrightarrow>
     (case cr_Decode cr nodeID of
        None \<Rightarrow> False
      | Some pid \<Rightarrow>
          (case cr_ExtractPublicKey cr pid of
             None \<Rightarrow> False
           | Some pub \<Rightarrow> (\<forall>m s. cr_Sign cr k m = Some s \<longrightarrow> cr_Verify cr pub m s = Some True)))"

text \<open>C37: A retrieval request a node prepares for its own data is accepted by every node that checks
  it, also after its time was cut to whole seconds on the wire, while a request for another
  owner's data is never signed.\<close>

theorem prepared_request_verifies:
  assumes "own_key cr k (n_ID env)" and "n_sign env = sign cr k (n_ID env)"
    and "PrepareRetrievalRequest env now ownerID = (request, True)"
  shows "ownerID = n_ID env \<and> verify cr (SignedRetrieval request) \<and>
    (\<forall>arrived. MRetrievalRequest arrived = trunc_message (MRetrievalRequest request) \<longrightarrow>
       verify cr (SignedRetrieval arrived))"
proof -
  let ?r = "\<lparr>RQ_Multiaddr = n_Multiaddr env, RQ_OwnerID = ownerID, RQ_Timestamp = now, RQ_Signature = []\<rparr>"
  obtain sig where sig: "sign cr k (n_ID env) ownerID (retrieval_text ?r) = Some sig"
      "request = ?r\<lparr>RQ_Signature := sig\<rparr>"
    using assms(2,3) by (auto simp: PrepareRetrievalRequest_def Let_def split: option.splits)
  have own: "ownerID = n_ID env" and "cr_Sign cr k (retrieval_text ?r) = Some sig"
    using sig(1) by (auto simp: sign_def split: if_splits)
  then have "verify cr (SignedRetrieval request)"
    using assms(1) sig(2)
    by (auto simp: own_key_def verify_text_def retrieval_text_def split: option.splits)
  moreover have "verify cr (SignedRetrieval (request\<lparr>RQ_Timestamp := trunc_time (RQ_Timestamp request)\<rparr>)) =
      verify cr (SignedRetrieval request)"
    by (simp add: retrieval_text_def trunc_time_def Unix_def)
  ultimately show ?thesis using own by simp
qed

text \<open>The check of an offer looks at its address and signature only: changing the capacity and
  the time of a signed offer never changes the verdict, and the signature it accepts is one of a
  fixed text, not of the text \<^verbatim>\<open>updateOffer\<close> signs.\<close>

lemma offer_check_ignores_content:
  "verify cr (SignedOffer (x\<lparr>o_Capacity := cap, o_Timestamp := t\<rparr>)) = verify cr (SignedOffer x) \<and>
   verify cr (SignedOffer x) =
     verify_text cr (last (strings_Split (o_Multiaddr x) (CHR ''/''))) ''kek'' (o_Signature x)"
  by (simp add: Let_def)

text \<open>A generated key is written to the fixed key file, not to the file the node was asked to use:
  starting again with the fixed file loads the same key, while the requested file is still
  missing, so starting again with that generates yet another key.\<close>

theorem generated_key_location:
  assumes "getPrivateKey cr name fs = (Some k, fs')" and "name = [] \<or> kf_files fs name = None"
    and "\<not> kf_unreadable fs privKeyFileName"
    and "\<forall>k b. cr_Marshal cr k = Some b \<longrightarrow> cr_Unmarshal cr b = Some k"
  shows "getPrivateKey cr privKeyFileName fs' = (Some k, fs') \<and>
    (name \<noteq> privKeyFileName \<longrightarrow> getPrivateKey cr name fs' = store_new_key cr fs')"
proof -
  have "store_new_key cr fs = (Some k, fs')" using assms(1,2) by (auto simp: getPrivateKey_def split: if_splits)
  then obtain b where "cr_Marshal cr k = Some b"
      "fs' = fs\<lparr>kf_files := (kf_files fs)(privKeyFileName \<mapsto> b)\<rparr>"
    by (auto simp: store_new_key_def split: option.splits if_splits)
  with assms(2-4) show ?thesis by (auto simp: getPrivateKey_def privKeyFileName_def)
qed

section \<open>Witnesses\<close>

definition demo_crypto :: "(gostring, gostring) crypto" where
  "demo_crypto = \<lparr>cr_Decode = Some, cr_ExtractPublicKey = Some,
     cr_Verify = (\<lambda>pub m s. Some (s = pub @ m)), cr_Sign = (\<lambda>k m. Some (k @ m)),
     cr_Generate = Some ''QmNode'', cr_Marshal = Some, cr_Unmarshal = Some, cr_Raw = Some\<rparr>"

theorem prepared_request_verifies_witness:
  "verify demo_crypto (SignedRetrieval
     \<lparr>RQ_Multiaddr = ''/ip4/1'', RQ_OwnerID = ''QmNode'', RQ_Timestamp = time_Unix 100,
      RQ_Signature = ''QmNode/ip4/1QmNode100''\<rparr>)"
proof -
  let ?env = "demo_env\<lparr>n_Multiaddr := ''/ip4/1'', n_sign := sign demo_crypto ''QmNode'' ''QmNode''\<rparr>"
  have "FormatInt (sint (Unix (time_Unix 100))) = ''100''"
    by code_simp
  then have "PrepareRetrievalRequest ?env (time_Unix 100) ''QmNode'' =
     (\<lparr>RQ_Multiaddr = ''/ip4/1'', RQ_OwnerID = ''QmNode'', RQ_Timestamp = time_Unix 100,
       RQ_Signature = ''QmNode/ip4/1QmNode100''\<rparr>, True)"
    by (simp add: PrepareRetrievalRequest_def retrieval_text_def sign_def demo_crypto_def demo_env_def)
  moreover have "own_key demo_crypto ''QmNode'' (n_ID ?env)"
    by (simp add: own_key_def demo_crypto_def demo_env_def)
  moreover have "n_sign ?env = sign demo_crypto ''QmNode'' (n_ID ?env)" by (simp add: demo_env_def)
  ultimately have "''QmNode'' = n_ID ?env \<and> verify demo_crypto (SignedRetrieval
     \<lparr>RQ_Multiaddr = ''/ip4/1'', RQ_OwnerID = ''QmNode'', RQ_Timestamp = time_Unix 100,
       RQ_Signature = ''QmNode/ip4/1QmNode100''\<rparr>)"
    using prepared_request_verifies [of demo_crypto "''QmNode''" ?env "time_Unix 100" "''QmNode''"] by metis
  then show ?thesis ..
qed

theorem generated_key_location_witness:
  "getPrivateKey demo_crypto privKeyFileName
     \<lparr>kf_files = [privKeyFileName \<mapsto> ''QmNode''], kf_unreadable = (\<lambda>_. False), kf_creatable = True,
      kf_writable = True\<rparr> =
   (Some ''QmNode'', \<lparr>kf_files = [privKeyFileName \<mapsto> ''QmNode''], kf_unreadable = (\<lambda>_. False),
      kf_creatable = True, kf_writable = True\<rparr>)"
  using generated_key_location [of demo_crypto "''my.key''"
      "\<lparr>kf_files = Map.empty, kf_unreadable = (\<lambda>_. False), kf_creatable = True, kf_writable = True\<rparr>"
      "''QmNode''" "\<lparr>kf_files = [privKeyFileName \<mapsto> ''QmNode''], kf_unreadable = (\<lambda>_. False),
         kf_creatable = True, kf_writable = True\<rparr>"]
  by (simp add: getPrivateKey_def store_new_key_def generateNewPrivKey_def demo_crypto_def)

end
