(* ===== verification/Wire.thy ===== *)
theory Wire
  imports Msg_Types
begin

unbundle bit_operations_syntax

text \<open>
  The byte-level routines of the generated protobuf code (\<^verbatim>\<open>gen/msg/msg.pb.go\<close>).  The encoders
  fill a buffer from its end towards its start; a writer takes the buffer and the current offset
  and gives \<open>None\<close> where the code would index or slice out of range.  The decoders walk a buffer
  with an index and return a position or an error.
\<close>

section \<open>Varints\<close>

text \<open>\<^verbatim>\<open>math/bits.Len64\<close>, and the number of bytes of a varint.\<close>

fun Len64 :: "nat \<Rightarrow> nat" where
  "Len64 n = (if n = 0 then 0 else Suc (Len64 (n div 2)))"

declare Len64.simps [simp del]

definition sovMsg :: "uint64 \<Rightarrow> nat" where
  "sovMsg x = (Len64 (unat (x OR 1)) + 6) div 7"

function encode_loop :: "byte list \<Rightarrow> nat \<Rightarrow> uint64 \<Rightarrow> byte list option" where
  "encode_loop dAtA offset v =
     (if v \<ge> 128
      then if offset < length dAtA
           then encode_loop (dAtA[offset := ucast (v AND 0x7f OR 0x80)]) (Suc offset) (drop_bit 7 v)
           else None
      else if offset < length dAtA then Some (dAtA[offset := ucast v]) else None)"
  by auto

lemma drop_bit_7_less: "(v::uint64) \<ge> 128 \<Longrightarrow> unat (drop_bit 7 v) < unat v"
  by (auto simp: unat_drop_bit_eq drop_bit_eq_div [of _ "unat v"] word_le_nat_alt)

termination encode_loop
  by (relation "measure (\<lambda>(_, _, v). unat v)") (simp_all add: drop_bit_7_less)

declare encode_loop.simps [simp del]

type_synonym buffer = "byte list \<times> nat"
type_synonym writer = "buffer \<Rightarrow> buffer option"

definition encodeVarintMsg :: "uint64 \<Rightarrow> writer" where
  "encodeVarintMsg v = (\<lambda>(dAtA, offset).
     if offset < sovMsg v then None
     else (case encode_loop dAtA (offset - sovMsg v) v of
             None \<Rightarrow> None
           | Some dAtA' \<Rightarrow> Some (dAtA', offset - sovMsg v)))"

text \<open>The encoding itself, seven bits at a time from the lowest.\<close>

function varint :: "uint64 \<Rightarrow> byte list" where
  "varint v = (if v \<ge> 128 then ucast (v AND 0x7f OR 0x80) # varint (drop_bit 7 v) else [ucast v])"
  by auto

termination varint
  by (relation "measure unat") (simp_all add: drop_bit_7_less)

declare varint.simps [simp del]

section \<open>Writers\<close>

text \<open>\<^verbatim>\<open>i -= len(x); copy(dAtA[i:], x)\<close> and \<^verbatim>\<open>i--; dAtA[i] = b\<close>.\<close>

definition put_bytes :: "byte list \<Rightarrow> writer" where
  "put_bytes x = (\<lambda>(dAtA, i).
     if i < length x \<or> length dAtA < i - length x then None
     else Some (take (i - length x) dAtA @ take (length dAtA - (i - length x)) x @ drop i dAtA,
                i - length x))"

definition put_byte :: "byte \<Rightarrow> writer" where
  "put_byte b = (\<lambda>(dAtA, i).
     if i = 0 \<or> length dAtA < i then None else Some (dAtA[i - 1 := b], i - 1))"

fun seq :: "writer list \<Rightarrow> writer" where
  "seq [] s = Some s"
| "seq (f # fs) s = (case f s of None \<Rightarrow> None | Some s' \<Rightarrow> seq fs s')"

text \<open>
  The four kinds of field.  A field that holds its zero value is not written, nor is a nil
  sub-message; the elements of a repeated field are written whatever they hold, the last one
  first.
\<close>

definition put_string :: "byte \<Rightarrow> gostring \<Rightarrow> writer" where
  "put_string tag s =
     seq [put_bytes (to_bytes s), encodeVarintMsg (of_nat (length s)), put_byte tag]"

definition put_string_field :: "byte \<Rightarrow> gostring \<Rightarrow> writer" where
  "put_string_field tag s = (if length s > 0 then put_string tag s else Some)"

definition put_varint_field :: "byte \<Rightarrow> uint64 \<Rightarrow> writer" where
  "put_varint_field tag v = (if v \<noteq> 0 then seq [encodeVarintMsg v, put_byte tag] else Some)"

definition put_bool_field :: "byte \<Rightarrow> bool \<Rightarrow> writer" where
  "put_bool_field tag b =
     (if b then seq [put_byte (if b then 1 else 0), put_byte tag] else Some)"

definition put_strings_field :: "byte \<Rightarrow> gostring list \<Rightarrow> writer" where
  "put_strings_field tag ss = (if length ss > 0 then seq (map (put_string tag) (rev ss)) else Some)"

text \<open>
  A sub-message is marshalled into the part of the buffer below the offset.  \<open>sized\<close> is the frame
  of every \<^verbatim>\<open>MarshalToSizedBuffer\<close>: from the buffer's length down, returning the bytes written.
\<close>

type_synonym sized_writer = "byte list \<Rightarrow> (byte list \<times> nat) option"

definition sized :: "writer list \<Rightarrow> sized_writer" where
  "sized ws dAtA =
     (case seq ws (dAtA, length dAtA) of
        None \<Rightarrow> None
      | Some (dAtA', i) \<Rightarrow> Some (dAtA', length dAtA' - i))"

definition put_message_field :: "byte \<Rightarrow> sized_writer option \<Rightarrow> writer" where
  "put_message_field tag sub =
     (case sub of
        None \<Rightarrow> Some
      | Some marshal \<Rightarrow> (\<lambda>(dAtA, i).
          if length dAtA < i then None
          else (case marshal (take i dAtA) of
            None \<Rightarrow> None
          | Some (low, n) \<Rightarrow>
              if i < n then None
              else seq [encodeVarintMsg (of_nat n), put_byte tag] (low @ drop i dAtA, i - n))))"

text \<open>\<^verbatim>\<open>Marshal\<close> makes a buffer of the computed size and returns its first \<open>n\<close> bytes.\<close>

definition marshal_with :: "nat \<Rightarrow> sized_writer \<Rightarrow> byte list option" where
  "marshal_with n marshal =
     (case marshal (replicate n 0) of
        None \<Rightarrow> None
      | Some (dAtA, k) \<Rightarrow> Some (take k dAtA))"

section \<open>What a writer writes\<close>

text \<open>
  \<open>writes f X\<close>: wherever the bytes below the offset have room for \<open>X\<close>, the writer puts \<open>X\<close> there,
  moves the offset to its start and leaves the rest alone.
\<close>

definition writes :: "writer \<Rightarrow> byte list \<Rightarrow> bool" where
  "writes f X \<longleftrightarrow> (\<forall>low room high. length room = length X \<longrightarrow>
     f (low @ room @ high, length low + length X) = Some (low @ X @ high, length low))"

lemma writesD:
  "writes f X \<Longrightarrow> length room = length X \<Longrightarrow> n = length low + length X \<Longrightarrow>
   f (low @ room @ high, n) = Some (low @ X @ high, length low)"
  by (simp add: writes_def)

lemma writes_Some: "writes Some []"
  by (simp add: writes_def)

lemma writes_seq_Nil: "writes (seq []) []"
  by (simp add: writes_def)

lemma writes_seq_Cons:
  assumes f: "writes f X" and fs: "writes (seq fs) Y"
  shows "writes (seq (f # fs)) (Y @ X)"
  unfolding writes_def
proof (intro allI impI)
  fix low room high :: "byte list"
  assume room: "length room = length (Y @ X)"
  let ?a = "take (length Y) room" and ?b = "drop (length Y) room"
  have "f ((low @ ?a) @ ?b @ high, length low + length (Y @ X)) =
      Some ((low @ ?a) @ X @ high, length (low @ ?a))"
    by (rule writesD [OF f]) (use room in auto)
  moreover have "low @ ?a @ ?b @ high = low @ room @ high" by simp
  ultimately have "f (low @ room @ high, length low + length (Y @ X)) =
      Some (low @ ?a @ X @ high, length (low @ ?a))" by simp
  moreover have "seq fs (low @ ?a @ X @ high, length (low @ ?a)) = Some (low @ Y @ X @ high, length low)"
    by (rule writesD [OF fs]) (use room in auto)
  ultimately show "seq (f # fs) (low @ room @ high, length low + length (Y @ X)) =
      Some (low @ (Y @ X) @ high, length low)" by simp
qed

lemma writes_seq_eq: "writes (seq fs) Y \<Longrightarrow> Y = X \<Longrightarrow> writes (seq fs) X"
  by simp

lemma writes_put_bytes: "writes (put_bytes x) x"
  by (auto simp: writes_def put_bytes_def)

lemma writes_put_byte: "writes (put_byte b) [b]"
proof -
  have "put_byte b (low @ room @ high, length low + 1) = Some (low @ [b] @ high, length low)"
    if "length room = 1" for low room high
    using that by (cases room) (auto simp: put_byte_def)
  then show ?thesis by (simp add: writes_def)
qed

section \<open>The length of a varint\<close>

lemma Len64_mult2: "0 < n \<Longrightarrow> Len64 n = Suc (Len64 (n div 2))"
  by (subst Len64.simps) simp

lemma Len64_or_1: "Len64 (unat ((x::uint64) OR 1)) = (if x = 0 then 1 else Len64 (unat x))"
proof -
  have "drop_bit 1 (unat x OR 1) = drop_bit 1 (unat x)" by (simp add: drop_bit_or)
  then have h: "unat (x OR 1) div 2 = unat x div 2"
    by (simp add: unsigned_or_eq drop_bit_eq_div)
  have "odd (x OR 1)" by (simp add: even_or_iff)
  then have "x OR 1 \<noteq> 0" by (metis even_zero)
  then have "Len64 (unat (x OR 1)) = Suc (Len64 (unat x div 2))"
    by (simp add: Len64_mult2 h unat_gt_0)
  then show ?thesis by (auto simp: Len64_mult2 [of "unat x"] unat_gt_0 Len64.simps [of 0])
qed

lemma Len64_div_128: "128 \<le> n \<Longrightarrow> Len64 n = 7 + Len64 (n div 128)"
proof -
  have "Len64 n = k + Len64 (n div 2 ^ k)" if "2 ^ k \<le> n" for k
    using that
  proof (induction k)
    case (Suc k)
    then have "0 < n div 2 ^ k" by (simp add: div_greater_zero_iff)
    with Suc show ?case
      by (simp add: Len64_mult2 [of "n div 2 ^ k"] power_Suc2 div_mult2_eq del: power_Suc)
  qed simp
  from this [of 7] show "128 \<le> n \<Longrightarrow> Len64 n = 7 + Len64 (n div 128)" by simp
qed

lemma Len64_less_128: "n < 128 \<Longrightarrow> Len64 n \<le> 7"
proof -
  have "n < 2 ^ k \<Longrightarrow> Len64 n \<le> k" for k
  proof (induction k arbitrary: n)
    case (Suc k)
    then show ?case by (cases "n = 0") (auto simp: Len64_mult2 [of n] Len64.simps [of 0])
  qed (simp add: Len64.simps)
  from this [of 7] show "n < 128 \<Longrightarrow> Len64 n \<le> 7" by simp
qed

lemma sovMsg_small: "v < 128 \<Longrightarrow> sovMsg v = 1"
  using Len64_less_128 [of "unat v"] Len64_mult2 [of "unat v"]
  by (auto simp: sovMsg_def Len64_or_1 word_less_nat_alt unat_gt_0 div_nat_eqI)

lemma sovMsg_step: "v \<ge> 128 \<Longrightarrow> sovMsg v = Suc (sovMsg (drop_bit 7 v))"
proof -
  assume v: "v \<ge> 128"
  have d: "unat (drop_bit 7 v) = unat v div 128"
    by (simp add: unat_drop_bit_eq drop_bit_eq_div [of _ "unat v"])
  have "128 \<le> unat v" using v by (simp add: word_le_nat_alt)
  then have "0 < unat (drop_bit 7 v)" by (simp add: d div_greater_zero_iff)
  then have "drop_bit 7 v \<noteq> 0" by auto
  moreover have "v \<noteq> 0" using v by auto
  ultimately show ?thesis
    using Len64_div_128 [OF \<open>128 \<le> unat v\<close>] by (simp add: sovMsg_def Len64_or_1 d)
qed

lemma length_varint: "length (varint v) = sovMsg v"
  by (induction v rule: varint.induct)
    (subst varint.simps, simp add: sovMsg_small sovMsg_step not_le)

lemma sovMsg_pos: "0 < sovMsg v"
  by (metis length_varint length_greater_0_conv varint.simps list.distinct(1))

lemma encode_loop_eq:
  "length room = length (varint v) \<Longrightarrow>
   encode_loop (low @ room @ high) (length low) v = Some (low @ varint v @ high)"
proof (induction v arbitrary: low room rule: varint.induct)
  case (1 v)
  obtain r rs where room: "room = r # rs" "length rs = length (varint v) - 1"
    using 1(2) sovMsg_pos [of v] by (cases room) (auto simp: length_varint)
  show ?case
  proof (cases "v \<ge> 128")
    case True
    let ?b = "ucast (v AND 0x7f OR 0x80) :: byte"
    have len: "length rs = length (varint (drop_bit 7 v))"
      using room(2) True by (simp add: length_varint sovMsg_step)
    have "encode_loop (low @ room @ high) (length low) v =
        encode_loop ((low @ [?b]) @ rs @ high) (length (low @ [?b])) (drop_bit 7 v)"
      using True by (subst encode_loop.simps) (simp add: room(1))
    also have "\<dots> = Some ((low @ [?b]) @ varint (drop_bit 7 v) @ high)"
      by (rule "1.IH" [OF True len])
    finally show ?thesis using True by (subst varint.simps) simp
  next
    case False
    then have "rs = []" using room(2) by (simp add: length_varint sovMsg_small not_le)
    with False show ?thesis by (subst encode_loop.simps, subst varint.simps) (simp add: room(1))
  qed
qed

lemma writes_encodeVarintMsg: "writes (encodeVarintMsg v) (varint v)"
  by (auto simp: writes_def encodeVarintMsg_def length_varint encode_loop_eq)

section \<open>The reference encoding of a field\<close>

definition wire_string :: "byte \<Rightarrow> gostring \<Rightarrow> byte list" where
  "wire_string tag s = tag # varint (of_nat (length s)) @ to_bytes s"

definition wire_string_field :: "byte \<Rightarrow> gostring \<Rightarrow> byte list" where
  "wire_string_field tag s = (if s = [] then [] else wire_string tag s)"

definition wire_varint_field :: "byte \<Rightarrow> uint64 \<Rightarrow> byte list" where
  "wire_varint_field tag v = (if v = 0 then [] else tag # varint v)"

definition wire_bool_field :: "byte \<Rightarrow> bool \<Rightarrow> byte list" where
  "wire_bool_field tag b = (if b then [tag, 1] else [])"

definition wire_strings_field :: "byte \<Rightarrow> gostring list \<Rightarrow> byte list" where
  "wire_strings_field tag ss = concat (map (wire_string tag) ss)"

definition wire_message_field :: "byte \<Rightarrow> byte list option \<Rightarrow> byte list" where
  "wire_message_field tag sub =
     (case sub of None \<Rightarrow> [] | Some X \<Rightarrow> tag # varint (of_nat (length X)) @ X)"

lemma writes_seq2: "writes f X \<Longrightarrow> writes g Y \<Longrightarrow> writes (seq [f, g]) (Y @ X)"
  using writes_seq_Cons [OF _ writes_seq_Cons [OF _ writes_seq_Nil]] by simp

lemma writes_seq3: "writes f X \<Longrightarrow> writes g Y \<Longrightarrow> writes h Z \<Longrightarrow> writes (seq [f, g, h]) (Z @ Y @ X)"
  using writes_seq_Cons [OF _ writes_seq2] by simp

lemma writes_put_string: "writes (put_string tag s) (wire_string tag s)"
  using writes_seq3 [OF writes_put_bytes writes_encodeVarintMsg writes_put_byte]
  by (simp add: put_string_def wire_string_def)

lemma writes_put_string_field: "writes (put_string_field tag s) (wire_string_field tag s)"
  by (simp add: put_string_field_def wire_string_field_def writes_Some writes_put_string)

lemma writes_put_varint_field: "writes (put_varint_field tag v) (wire_varint_field tag v)"
  using writes_seq2 [OF writes_encodeVarintMsg writes_put_byte]
  by (simp add: put_varint_field_def wire_varint_field_def writes_Some)

lemma writes_put_bool_field: "writes (put_bool_field tag b) (wire_bool_field tag b)"
  using writes_seq2 [OF writes_put_byte writes_put_byte, of 1 tag]
  by (simp add: put_bool_field_def wire_bool_field_def writes_Some)

lemma writes_put_strings_field: "writes (put_strings_field tag ss) (wire_strings_field tag ss)"
proof -
  have "writes (seq (map (put_string tag) us)) (concat (map (wire_string tag) (rev us)))" for us
  proof (induction us)
    case (Cons u us)
    from writes_seq_Cons [OF writes_put_string Cons.IH] show ?case by (simp del: seq.simps)
  qed (simp add: writes_seq_Nil [simplified] del: seq.simps)
  from this [of "rev ss"] show ?thesis
    by (auto simp: put_strings_field_def wire_strings_field_def writes_Some)
qed

lemma sized_writes:
  assumes "writes (seq ws) X" and "length X \<le> length dAtA"
  shows "sized ws dAtA = Some (take (length dAtA - length X) dAtA @ X, length X)"
proof -
  let ?n = "length dAtA - length X"
  have "seq ws (take ?n dAtA @ drop ?n dAtA @ [], length dAtA) =
      Some (take ?n dAtA @ X @ [], length (take ?n dAtA))"
    by (rule writesD [OF assms(1)]) (use assms(2) in auto)
  then show ?thesis using assms(2) by (simp add: sized_def)
qed

lemma writes_put_message_field_Some:
  assumes "writes (seq ws) X"
  shows "writes (put_message_field tag (Some (sized ws))) (wire_message_field tag (Some X))"
  unfolding writes_def
proof (intro allI impI)
  let ?Y = "tag # varint (of_nat (length X))"
  fix low room high :: "byte list"
  assume room: "length room = length (wire_message_field tag (Some X))"
  then have len: "length room = length ?Y + length X" by (simp add: wire_message_field_def)
  let ?a = "take (length ?Y) room"
  have a: "length ?a = length ?Y" using len by simp
  have w: "writes (seq [encodeVarintMsg (of_nat (length X)), put_byte tag]) ?Y"
    using writes_seq2 [OF writes_encodeVarintMsg writes_put_byte] by simp
  have "seq [encodeVarintMsg (of_nat (length X)), put_byte tag]
        (low @ ?a @ X @ high, length low + length ?Y) = Some (low @ ?Y @ X @ high, length low)"
    by (rule writesD [OF w a refl])
  moreover have "sized ws (low @ room) = Some (low @ ?a @ X, length X)"
    using sized_writes [OF assms, of "low @ room"] len by simp
  ultimately show "put_message_field tag (Some (sized ws)) (low @ room @ high,
      length low + length (wire_message_field tag (Some X))) =
      Some (low @ wire_message_field tag (Some X) @ high, length low)"
    using len by (simp add: put_message_field_def wire_message_field_def)
qed

lemma writes_put_message_field:
  assumes "\<And>m. sub = Some m \<Longrightarrow> writes (seq (ws m)) (X m)"
  shows "writes (put_message_field tag (map_option (\<lambda>m. sized (ws m)) sub))
     (wire_message_field tag (map_option X sub))"
proof (cases sub)
  case None
  then show ?thesis by (simp add: put_message_field_def wire_message_field_def writes_Some)
next
  case (Some m)
  with writes_put_message_field_Some [OF assms [OF Some]] show ?thesis by simp
qed

text \<open>A buffer of exactly the right size comes out as the encoding.\<close>

lemma marshal_with_writes:
  "writes (seq ws) X \<Longrightarrow> n = length X \<Longrightarrow> marshal_with n (sized ws) = Some X"
  by (simp add: marshal_with_def sized_writes)

lemmas field_writes =
  writes_put_bytes writes_put_string_field writes_put_varint_field writes_put_bool_field
  writes_put_strings_field writes_put_message_field

lemma field_lengths:
  "length (wire_string tag s) = 1 + length s + sovMsg (of_nat (length s))"
  "length (wire_string_field tag s) =
     (if length s > 0 then 1 + length s + sovMsg (of_nat (length s)) else 0)"
  "length (wire_varint_field tag v) = (if v \<noteq> 0 then 1 + sovMsg v else 0)"
  "length (wire_bool_field tag b) = (if b then 2 else 0)"
  "length (wire_strings_field tag ss) =
     (\<Sum>s\<leftarrow>ss. 1 + length s + sovMsg (of_nat (length s)))"
  "length (wire_message_field tag sub) =
     (case sub of None \<Rightarrow> 0 | Some X \<Rightarrow> 1 + length X + sovMsg (of_nat (length X)))"
  by (auto simp: wire_string_def wire_string_field_def wire_varint_field_def wire_bool_field_def
      wire_strings_field_def wire_message_field_def length_varint length_concat o_def
      split: option.splits intro!: arg_cong [where f = sum_list])

end
