(* ===== verification/Wire_Decode.thy ===== *)
theory Wire_Decode
  imports Wire
begin

text \<open>
  The reading half of the generated code (\<^verbatim>\<open>gen/msg/msg.pb.go\<close>): the varint loop that every field
  repeats, the length prefixes with their checks, \<^verbatim>\<open>skipMsg\<close>, and the frame of the seven
  \<^verbatim>\<open>Unmarshal\<close> loops as a locale.  A position is a natural number; where the code tests a sum of
  positions for being negative, the test is on the bound 2^63 the sum would have wrapped at.
\<close>

section \<open>Errors\<close>

datatype wire_error =
    ErrIntOverflowMsg
  | ErrUnexpectedEOF
  | ErrInvalidLengthMsg
  | ErrUnexpectedEndOfGroupMsg
  | ErrEndGroup
  | ErrIllegalTag
  | ErrWrongWireType
  | ErrIllegalWireType

section \<open>Varints\<close>

text \<open>
  The loop reads into an integer of the field's own width; a shift beyond that width contributes
  nothing.
\<close>

function read_varint ::
  "byte list \<Rightarrow> nat \<Rightarrow> nat \<Rightarrow> 'a::len word \<Rightarrow> wire_error + 'a word \<times> nat"
where
  "read_varint dAtA shift iNdEx acc =
     (if shift \<ge> 64 then Inl ErrIntOverflowMsg
      else if iNdEx \<ge> length dAtA then Inl ErrUnexpectedEOF
      else (let b = dAtA ! iNdEx; acc' = acc OR push_bit shift (ucast (b AND 0x7F))
            in if b < 0x80 then Inr (acc', Suc iNdEx)
               else read_varint dAtA (shift + 7) (Suc iNdEx) acc'))"
  by auto

termination read_varint
  by (relation "measure (\<lambda>(dAtA, _, iNdEx, _). length dAtA - iNdEx)") auto

declare read_varint.simps [simp del]

lemma read_varint_progress: "read_varint dAtA s i acc = Inr (v, j) \<Longrightarrow> i < j \<and> j \<le> length dAtA"
proof (induction dAtA s i acc rule: read_varint.induct)
  case (1 dAtA s i acc)
  show ?case
    using 1(2) "1.IH" by (subst (asm) read_varint.simps) (fastforce simp: Let_def split: if_splits)
qed

text \<open>A narrower target sees the low bits of what a wider one sees.\<close>

lemma read_varint_ucast:
  fixes acc :: "'a::len word"
  assumes "LENGTH('b::len) \<le> LENGTH('a)" and "8 \<le> LENGTH('b)"
  shows "read_varint dAtA s i (ucast acc :: 'b word) =
    map_sum id (map_prod ucast id) (read_varint dAtA s i acc)"
proof (induction dAtA s i acc rule: read_varint.induct)
  case (1 dAtA s i acc)
  have shift: "(ucast (acc OR push_bit s (ucast (b AND 0x7F))) :: 'b word) =
      ucast acc OR push_bit s (ucast (b AND 0x7F))" for b :: byte
    using assms by (intro bit_word_eqI) (auto simp: bit_simps)
  show ?case
    using "1.IH"
    by (subst read_varint.simps, subst (2) read_varint.simps) (simp add: Let_def shift id_def)
qed

lemma mask_7: "(0x7F :: 'a::len word) = mask 7"
  by (simp add: mask_eq_exp_minus_1)

lemma mask_3: "(7 :: 'a::len word) = mask 3"
  by (simp add: mask_eq_exp_minus_1)

lemma bit_128:
  "bit (0x80 :: uint64) n \<longleftrightarrow> n = 7" "bit (0x80 :: byte) n \<longleftrightarrow> n = 7"
  "bit (0x80 :: int) n \<longleftrightarrow> n = 7"
proof -
  have "bit ((2::uint64) ^ k) n \<longleftrightarrow> k < 64 \<and> n = k" "bit ((2::byte) ^ k) n \<longleftrightarrow> k < 8 \<and> n = k"
    "bit ((2::int) ^ k) n \<longleftrightarrow> n = k" for k
    by (auto simp: bit_exp_iff)
  from this [of 7] show "bit (0x80 :: uint64) n \<longleftrightarrow> n = 7" "bit (0x80 :: byte) n \<longleftrightarrow> n = 7"
    "bit (0x80 :: int) n \<longleftrightarrow> n = 7"
    by simp_all
qed

lemma not_bit_high: "unat (w::'a::len word) < 2 ^ k \<Longrightarrow> k \<le> n \<Longrightarrow> \<not> bit w n"
proof -
  assume "unat w < 2 ^ k" "k \<le> n"
  then have "unat w < 2 ^ n" by (meson one_le_numeral order_less_le_trans power_increasing)
  then have "\<not> bit (unat w) n" by (simp add: bit_iff_odd)
  then show ?thesis by (simp add: bit_unsigned_iff)
qed

lemma byte_less_80: "(b::byte) < 0x80 \<longleftrightarrow> \<not> bit b 7"
proof
  show "b < 0x80 \<Longrightarrow> \<not> bit b 7"
    by (rule not_bit_high [of _ 7]) (simp_all add: word_less_nat_alt)
  show "\<not> bit b 7 \<Longrightarrow> b < 0x80"
  proof (rule ccontr)
    assume "\<not> bit b 7" "\<not> b < 0x80"
    then have "unat b div 128 = 1"
      using unat_less_2p [of b] by (intro div_nat_eqI) (auto simp: word_less_nat_alt)
    then have "bit (unat b) 7" by (simp add: bit_iff_odd)
    with \<open>\<not> bit b 7\<close> show False by (simp add: bit_unsigned_iff)
  qed
qed

lemma continued_byte:
  fixes v :: uint64
  shows "\<not> (ucast (v AND 0x7f OR 0x80) :: byte) < 0x80"
    and "ucast ((ucast (v AND 0x7f OR 0x80) :: byte) AND 0x7F) = v AND 0x7F"
proof -
  show "\<not> (ucast (v AND 0x7f OR 0x80) :: byte) < 0x80"
    unfolding byte_less_80 by (simp add: bit_simps bit_128)
  show "ucast ((ucast (v AND 0x7f OR 0x80) :: byte) AND 0x7F) = v AND 0x7F"
    unfolding mask_7 by (rule bit_word_eqI) (auto simp: bit_simps bit_128)
qed

lemma last_byte:
  fixes v :: uint64
  assumes "v < 128"
  shows "(ucast v :: byte) < 0x80" and "ucast ((ucast v :: byte) AND 0x7F) = v"
proof -
  have high: "\<not> bit v n" if "7 \<le> n" for n
    by (rule not_bit_high [of _ 7]) (use assms that in \<open>simp_all add: word_less_nat_alt\<close>)
  then have "n < 7" if "bit v n" for n using that by (meson not_le)
  then have low: "n < 7" "n < 8" if "bit v n" for n using that by fastforce+
  show "(ucast v :: byte) < 0x80" unfolding byte_less_80 by (simp add: bit_simps high)
  show "ucast ((ucast v :: byte) AND 0x7F) = v"
    unfolding mask_7 by (rule bit_word_eqI) (auto simp: bit_simps dest: low)
qed

lemma varint_split: "push_bit s (v::uint64) = push_bit s (v AND 0x7F) OR push_bit (s + 7) (drop_bit 7 v)"
proof (rule bit_word_eqI)
  fix n
  assume "n < LENGTH(64)"
  then show "bit (push_bit s v) n \<longleftrightarrow> bit (push_bit s (v AND 0x7F) OR push_bit (s + 7) (drop_bit 7 v)) n"
    unfolding mask_7 by (cases "n < s + 7") (auto simp: bit_simps)
qed

lemma varint_more: "v \<ge> 128 \<Longrightarrow> varint v = ucast (v AND 0x7f OR 0x80) # varint (drop_bit 7 v)"
  by (subst varint.simps) simp

lemma varint_end: "v < 128 \<Longrightarrow> varint v = [ucast v]"
  by (subst varint.simps) (auto dest: leD)

lemma read_varint_more:
  "s < 64 \<Longrightarrow> \<not> b < 0x80 \<Longrightarrow> read_varint (low @ b # high) s (length low) acc =
     read_varint (low @ b # high) (s + 7) (Suc (length low)) (acc OR push_bit s (ucast (b AND 0x7F)))"
  by (subst read_varint.simps) (simp add: Let_def)

lemma read_varint_end:
  "s < 64 \<Longrightarrow> b < 0x80 \<Longrightarrow> read_varint (low @ b # high) s (length low) acc =
     Inr (acc OR push_bit s (ucast (b AND 0x7F)), Suc (length low))"
  by (subst read_varint.simps) (simp add: Let_def)

lemma read_varint_eq:
  fixes v :: uint64
  shows "unat v < 2 ^ (64 - s) \<Longrightarrow> s < 64 \<Longrightarrow>
    read_varint (low @ varint v @ high) s (length low) acc =
      Inr (acc OR push_bit s v, length low + length (varint v))"
proof (induction v arbitrary: s low acc rule: varint.induct)
  case (1 v)
  show ?case
  proof (cases "v \<ge> 128")
    case True
    let ?b = "ucast (v AND 0x7f OR 0x80) :: byte"
    have "128 \<le> unat v" using True by (simp add: word_le_nat_alt)
    then have "(2::nat) ^ 7 < 2 ^ (64 - s)" using 1(2) by simp
    then have s: "s + 7 < 64" by (subst (asm) power_strict_increasing_iff) auto
    have "(2::nat) ^ (64 - s) = 2 ^ (64 - (s + 7)) * 2 ^ 7"
      using s by (subst power_add [symmetric]) (rule arg_cong, arith)
    with 1(2) have "unat (drop_bit 7 v) < 2 ^ (64 - (s + 7))"
      by (simp add: unat_drop_bit_eq drop_bit_eq_div [of _ "unat v"] less_mult_imp_div_less)
    note IH = "1.IH" [OF True this s, of "low @ [?b]" "acc OR push_bit s (v AND 0x7F)"]
    have o: "(acc OR push_bit s (v AND 0x7F)) OR push_bit (s + 7) (drop_bit 7 v) = acc OR push_bit s v"
      by (simp only: varint_split [of s v] or.assoc)
    have IH: "read_varint (low @ ?b # varint (drop_bit 7 v) @ high) (s + 7) (Suc (length low))
        (acc OR push_bit s (v AND 0x7F)) =
      Inr (acc OR push_bit s v, length low + length (varint v))"
      using IH unfolding o varint_more [OF True]
      by (simp only: append_assoc append_Cons append_Nil length_append list.size add_Suc_right
          add_Suc add_0_right One_nat_def)
    have "read_varint (low @ varint v @ high) s (length low) acc =
        read_varint (low @ ?b # varint (drop_bit 7 v) @ high) s (length low) acc"
      by (simp only: varint_more [OF True] append_Cons)
    also have "\<dots> = read_varint (low @ ?b # varint (drop_bit 7 v) @ high) (s + 7) (Suc (length low))
        (acc OR push_bit s (v AND 0x7F))"
      unfolding read_varint_more [OF 1(3) continued_byte(1)] continued_byte(2) ..
    finally show ?thesis unfolding IH .
  next
    case False
    then have v: "v < 128" by simp
    show ?thesis
      unfolding varint_end [OF v] append_Cons append_Nil
        read_varint_end [OF 1(3) last_byte(1) [OF v]] last_byte(2) [OF v] by simp
  qed
qed

lemma read_varint_varint:
  "read_varint (low @ varint v @ high) 0 (length low) (0::uint64) =
     Inr (v, length low + length (varint v))"
  using read_varint_eq [of v 0 low high 0] unat_less_2p [of v] by simp

lemma read_varint_narrow:
  "8 \<le> LENGTH('a::len) \<Longrightarrow> LENGTH('a) \<le> 64 \<Longrightarrow>
   read_varint (low @ varint v @ high) 0 (length low) (0 :: 'a word) =
     Inr (ucast v, length low + length (varint v))"
  using read_varint_ucast [where 'a = 64 and 'b = 'a, of "low @ varint v @ high" 0 "length low" 0]
    read_varint_varint [of low v high] by simp

section \<open>Tags and lengths\<close>

definition read_tag :: "byte list \<Rightarrow> nat \<Rightarrow> wire_error + int \<times> nat \<times> nat" where
  "read_tag dAtA iNdEx =
     (case read_varint dAtA 0 iNdEx (0::uint64) of
        Inl e \<Rightarrow> Inl e
      | Inr (wire, j) \<Rightarrow>
          (let fieldNum = sint (ucast (drop_bit 3 wire) :: int32); wireType = unat (wire AND 7)
           in if wireType = 4 then Inl ErrEndGroup
              else if fieldNum \<le> 0 then Inl ErrIllegalTag
              else Inr (fieldNum, wireType, j)))"

text \<open>A length prefix at \<open>iNdEx\<close>: where the payload starts and ends.\<close>

definition read_length :: "byte list \<Rightarrow> nat \<Rightarrow> wire_error + nat \<times> nat" where
  "read_length dAtA iNdEx =
     (case read_varint dAtA 0 iNdEx (0::int64) of
        Inl e \<Rightarrow> Inl e
      | Inr (len, j) \<Rightarrow>
          if sint len < 0 then Inl ErrInvalidLengthMsg
          else (let postIndex = j + nat (sint len)
                in if postIndex \<ge> 2 ^ 63 then Inl ErrInvalidLengthMsg
                   else if postIndex > length dAtA then Inl ErrUnexpectedEOF
                   else Inr (j, postIndex)))"

definition slice :: "nat \<Rightarrow> nat \<Rightarrow> 'a list \<Rightarrow> 'a list" where
  "slice from to xs = take (to - from) (drop from xs)"

section \<open>Skipping unknown fields\<close>

text \<open>One round of \<^verbatim>\<open>skipMsg\<close> after the tag, with the nesting depth of groups.\<close>

definition skip_value :: "byte list \<Rightarrow> nat \<Rightarrow> nat \<Rightarrow> nat \<Rightarrow> wire_error + nat \<times> nat" where
  "skip_value dAtA wireType iNdEx depth =
     (if wireType = 0 then
        (case read_varint dAtA 0 iNdEx (0::uint64) of
           Inl e \<Rightarrow> Inl e | Inr (_, j) \<Rightarrow> Inr (j, depth))
      else if wireType = 1 then Inr (iNdEx + 8, depth)
      else if wireType = 2 then
        (case read_varint dAtA 0 iNdEx (0::int64) of
           Inl e \<Rightarrow> Inl e
         | Inr (len, j) \<Rightarrow>
             if sint len < 0 then Inl ErrInvalidLengthMsg else Inr (j + nat (sint len), depth))
      else if wireType = 3 then Inr (iNdEx, Suc depth)
      else if wireType = 4 then
        (if depth = 0 then Inl ErrUnexpectedEndOfGroupMsg else Inr (iNdEx, depth - 1))
      else if wireType = 5 then Inr (iNdEx + 4, depth)
      else Inl ErrIllegalWireType)"

lemma skip_value_progress: "skip_value dAtA wt i depth = Inr (j, depth') \<Longrightarrow> i \<le> j"
  by (auto simp: skip_value_def dest: read_varint_progress
      split: if_splits sum.splits prod.splits)

function skip_loop :: "byte list \<Rightarrow> nat \<Rightarrow> nat \<Rightarrow> wire_error + nat" where
  "skip_loop dAtA iNdEx depth =
     (if iNdEx < length dAtA
      then (case read_varint dAtA 0 iNdEx (0::uint64) of
              Inl e \<Rightarrow> Inl e
            | Inr (wire, i) \<Rightarrow>
                (case skip_value dAtA (unat (wire AND 7)) i depth of
                   Inl e \<Rightarrow> Inl e
                 | Inr (j, depth') \<Rightarrow>
                     if j \<ge> 2 ^ 63 then Inl ErrInvalidLengthMsg
                     else if depth' = 0 then Inr j
                     else skip_loop dAtA j depth'))
      else Inl ErrUnexpectedEOF)"
  by auto

termination skip_loop
  by (relation "measure (\<lambda>(dAtA, iNdEx, _). length dAtA - iNdEx)")
    (auto dest!: read_varint_progress skip_value_progress)

declare skip_loop.simps [simp del]

definition skipMsg :: "byte list \<Rightarrow> wire_error + nat" where
  "skipMsg dAtA = skip_loop dAtA 0 0"

lemma skip_loop_progress: "skip_loop dAtA i depth = Inr j \<Longrightarrow> i < j"
proof (induction dAtA i depth rule: skip_loop.induct)
  case (1 dAtA i depth)
  from 1(2) obtain wire k l d where *: "i < length dAtA"
      "read_varint dAtA 0 i (0::uint64) = Inr (wire, k)"
      "skip_value dAtA (unat (wire AND 7)) k depth = Inr (l, d)" "\<not> l \<ge> 2 ^ 63"
      "if d = 0 then l = j else skip_loop dAtA l d = Inr j"
    by (subst (asm) skip_loop.simps) (auto split: if_splits sum.splits prod.splits)
  have "i < l" using read_varint_progress [OF *(2)] skip_value_progress [OF *(3)] by simp
  moreover have "l < j" if "d \<noteq> 0"
    by (rule "1.IH" [OF *(1,2) refl *(3) refl]) (use * that in auto)
  ultimately show ?case using *(5) by (cases "d = 0") auto
qed

section \<open>Reading a field\<close>

text \<open>
  The branches of the field switches.  \<open>upd\<close> stores what was read; a repeated or already present
  sub-message is merged into; an unknown field is kept byte for byte, from its tag on.
\<close>

definition get_string ::
  "nat \<Rightarrow> byte list \<Rightarrow> nat \<Rightarrow> (gostring \<Rightarrow> 'm) \<Rightarrow> wire_error + 'm \<times> nat"
where
  "get_string wireType dAtA iNdEx upd =
     (if wireType \<noteq> 2 then Inl ErrWrongWireType
      else (case read_length dAtA iNdEx of
              Inl e \<Rightarrow> Inl e
            | Inr (i, postIndex) \<Rightarrow> Inr (upd (from_bytes (slice i postIndex dAtA)), postIndex)))"

definition get_varint ::
  "nat \<Rightarrow> byte list \<Rightarrow> nat \<Rightarrow> ('a::len word \<Rightarrow> 'm) \<Rightarrow> wire_error + 'm \<times> nat"
where
  "get_varint wireType dAtA iNdEx upd =
     (if wireType \<noteq> 0 then Inl ErrWrongWireType
      else (case read_varint dAtA 0 iNdEx 0 of
              Inl e \<Rightarrow> Inl e
            | Inr (v, j) \<Rightarrow> Inr (upd v, j)))"

definition get_bool ::
  "nat \<Rightarrow> byte list \<Rightarrow> nat \<Rightarrow> (bool \<Rightarrow> 'm) \<Rightarrow> wire_error + 'm \<times> nat"
where
  "get_bool wireType dAtA iNdEx upd = get_varint wireType dAtA iNdEx (\<lambda>v::int64. upd (v \<noteq> 0))"

definition get_message ::
  "nat \<Rightarrow> byte list \<Rightarrow> nat \<Rightarrow> (byte list \<Rightarrow> 's \<Rightarrow> wire_error + 's) \<Rightarrow> 's \<Rightarrow> 's option \<Rightarrow>
   ('s \<Rightarrow> 'm) \<Rightarrow> wire_error + 'm \<times> nat"
where
  "get_message wireType dAtA iNdEx unmarshal fresh old upd =
     (if wireType \<noteq> 2 then Inl ErrWrongWireType
      else (case read_length dAtA iNdEx of
              Inl e \<Rightarrow> Inl e
            | Inr (i, postIndex) \<Rightarrow>
                (case unmarshal (slice i postIndex dAtA)
                        (case old of None \<Rightarrow> fresh | Some m \<Rightarrow> m) of
                   Inl e \<Rightarrow> Inl e
                 | Inr m \<Rightarrow> Inr (upd m, postIndex))))"

definition get_unknown ::
  "byte list \<Rightarrow> nat \<Rightarrow> (byte list \<Rightarrow> 'm) \<Rightarrow> wire_error + 'm \<times> nat"
where
  "get_unknown dAtA preIndex upd =
     (case skipMsg (drop preIndex dAtA) of
        Inl e \<Rightarrow> Inl e
      | Inr skippy \<Rightarrow>
          if preIndex + skippy \<ge> 2 ^ 63 then Inl ErrInvalidLengthMsg
          else if preIndex + skippy > length dAtA then Inl ErrUnexpectedEOF
          else Inr (upd (slice preIndex (preIndex + skippy) dAtA), preIndex + skippy))"

lemma read_tag_progress: "read_tag dAtA i = Inr (fn, wt, j) \<Longrightarrow> i < j \<and> j \<le> length dAtA"
  by (auto simp: read_tag_def Let_def dest: read_varint_progress split: sum.splits if_splits)

lemma read_length_progress: "read_length dAtA i = Inr (a, b) \<Longrightarrow> i < a \<and> a \<le> b \<and> b \<le> length dAtA"
  by (auto simp: read_length_def Let_def dest: read_varint_progress split: sum.splits if_splits)

text \<open>Every branch moves past the tag and stays inside the buffer.\<close>

lemma get_progress:
  "get_string wt dAtA i f = Inr (m, j) \<Longrightarrow> i < j \<and> j \<le> length dAtA"
  "get_varint wt dAtA i g = Inr (m, j) \<Longrightarrow> i < j \<and> j \<le> length dAtA"
  "get_bool wt dAtA i h = Inr (m, j) \<Longrightarrow> i < j \<and> j \<le> length dAtA"
  "get_message wt dAtA i u z old k = Inr (m, j) \<Longrightarrow> i < j \<and> j \<le> length dAtA"
  "get_unknown dAtA pre l = Inr (m, j) \<Longrightarrow> pre < j \<and> j \<le> length dAtA"
  by (auto simp: get_string_def get_varint_def get_bool_def get_message_def get_unknown_def skipMsg_def
      dest!: read_length_progress read_varint_progress skip_loop_progress
      split: sum.splits if_splits prod.splits)

section \<open>The frame of an \<^verbatim>\<open>Unmarshal\<close> method\<close>

text \<open>
  The seven methods share one loop: read a tag, switch on the field number.  The locale fixes the
  switch and the loop of a type; its laws are the loop's equation and that every branch makes
  progress inside the buffer.
\<close>

type_synonym 'm field_switch =
  "byte list \<Rightarrow> int \<Rightarrow> nat \<Rightarrow> nat \<Rightarrow> nat \<Rightarrow> 'm \<Rightarrow> wire_error + 'm \<times> nat"
type_synonym 'm field_loop = "byte list \<Rightarrow> nat \<Rightarrow> 'm \<Rightarrow> wire_error + 'm"

text \<open>\<open>steps loop X m m'\<close>: standing before the bytes \<open>X\<close>, the loop consumes them and turns \<open>m\<close> into
  \<open>m'\<close>, whatever surrounds them.\<close>

definition steps :: "'m field_loop \<Rightarrow> byte list \<Rightarrow> 'm \<Rightarrow> 'm \<Rightarrow> bool" where
  "steps loop X m m' \<longleftrightarrow>
     (\<forall>low high. length (low @ X @ high) < 2 ^ 63 \<longrightarrow>
        loop (low @ X @ high) (length low) m = loop (low @ X @ high) (length low + length X) m')"

lemma steps_Nil: "steps loop [] m m"
  by (simp add: steps_def)

lemma steps_empty: "X = [] \<Longrightarrow> steps loop X m m"
  by (simp add: steps_Nil)

lemma steps_eq: "steps loop X m m' \<Longrightarrow> m' = m'' \<Longrightarrow> steps loop X m m''"
  by simp

lemma steps_append: "steps loop X m m' \<Longrightarrow> steps loop Y m' m'' \<Longrightarrow> steps loop (X @ Y) m m''"
  unfolding steps_def
proof (intro allI impI)
  fix low high :: "byte list"
  assume X: "\<forall>low high. length (low @ X @ high) < 2 ^ 63 \<longrightarrow>
      loop (low @ X @ high) (length low) m = loop (low @ X @ high) (length low + length X) m'"
    and Y: "\<forall>low high. length (low @ Y @ high) < 2 ^ 63 \<longrightarrow>
      loop (low @ Y @ high) (length low) m' = loop (low @ Y @ high) (length low + length Y) m''"
    and len: "length (low @ (X @ Y) @ high) < 2 ^ 63"
  from X [rule_format, of low "Y @ high"] Y [rule_format, of "low @ X" high] len
  show "loop (low @ (X @ Y) @ high) (length low) m =
      loop (low @ (X @ Y) @ high) (length low + length (X @ Y)) m''"
    by (simp add: add.assoc)
qed

text \<open>A tag below 128 is one byte: the field number above the three bits of the wire type.\<close>

definition is_tag :: "byte \<Rightarrow> int \<Rightarrow> nat \<Rightarrow> bool" where
  "is_tag t fn wt \<longleftrightarrow>
     t < 0x80 \<and> uint (drop_bit 3 t) = fn \<and> unat (t AND 7) = wt \<and> 0 < fn \<and> wt \<noteq> 4"

lemma read_varint_tag:
  assumes "is_tag t fn wt"
  shows "read_varint (low @ t # high) 0 (length low) (0::uint64) = Inr (ucast t, Suc (length low))"
proof -
  have t: "t < 0x80" using assms by (simp add: is_tag_def)
  then have "t AND 0x7F = t"
    using byte_less_80 [of t] unfolding mask_7
    by (intro bit_word_eqI) (auto simp: bit_simps less_Suc_eq numeral_eq_Suc)
  then show ?thesis using read_varint_end [of 0 t low high "0::uint64"] t by simp
qed

lemma tag_wireType: "is_tag t fn wt \<Longrightarrow> unat ((ucast t :: uint64) AND 7) = wt"
proof -
  assume "is_tag t fn wt"
  moreover have "(ucast t :: uint64) AND 7 = ucast (t AND 7)"
    by (rule bit_word_eqI) (auto simp: bit_simps mask_3 dest: bit_imp_le_length)
  ultimately show ?thesis
    using unat_less_2p [of "t AND 7"] by (simp add: is_tag_def unsigned_ucast_eq take_bit_nat_eq_self)
qed

lemma read_tag_byte:
  assumes "is_tag t fn wt"
  shows "read_tag (low @ t # high) (length low) = Inr (fn, wt, Suc (length low))"
proof -
  have fn: "uint (drop_bit 3 t) = fn" and ok: "0 < fn" "wt \<noteq> 4"
    using assms by (simp_all add: is_tag_def)
  have "ucast (drop_bit 3 (ucast t :: uint64)) = (ucast (drop_bit 3 t) :: int32)"
    by (rule bit_word_eqI) (auto simp: bit_simps dest: bit_imp_le_length)
  moreover have fn': "fn < 2 ^ 8" "0 \<le> fn" using uint_lt2p [of "drop_bit 3 t"] ok by (simp_all flip: fn)
  moreover have "uint (ucast (drop_bit 3 t) :: int32) = fn"
    using fn fn' by (simp add: unsigned_ucast_eq take_bit_int_eq_self)
  ultimately have "sint (ucast (drop_bit 3 (ucast t :: uint64)) :: int32) = fn"
    by (simp add: sint_uint signed_take_bit_int_eq_self)
  then show ?thesis
    using ok by (simp add: read_tag_def read_varint_tag [OF assms] tag_wireType [OF assms] Let_def)
qed

lemma read_length_varint:
  assumes "length (low @ varint (of_nat (length X)) @ X @ high) < 2 ^ 63"
  shows "read_length (low @ varint (of_nat (length X)) @ X @ high) (length low) =
    Inr (length low + length (varint (of_nat (length X))),
         length low + length (varint (of_nat (length X))) + length X)"
proof -
  have "length X < 2 ^ 63" using assms by simp
  then have "sint (of_nat (length X) :: int64) = int (length X)"
    by (simp add: signed_of_nat signed_take_bit_int_eq_self)
  then show ?thesis
    using assms read_varint_varint [of low "of_nat (length X)" "X @ high"]
    by (simp add: read_length_def)
qed

lemma slice_append: "slice (length A) (length A + length X) (A @ X @ B) = X"
  by (simp add: slice_def)

lemma widen_narrow [wire_simps]:
  "ucast (ucast (v::uint32) :: uint64) = v" "ucast (scast (w::int32) :: uint64) = w"
  by (rule bit_word_eqI; auto simp: bit_simps)+

locale unmarshaller =
  fixes switch :: "'m field_switch" and loop :: "'m field_loop"
  assumes loop_eq: "loop dAtA i m =
      (if i < length dAtA
       then (case read_tag dAtA i of
               Inl e \<Rightarrow> Inl e
             | Inr (fieldNum, wireType, j) \<Rightarrow>
                 (case switch dAtA fieldNum wireType i j m of
                    Inl e \<Rightarrow> Inl e
                  | Inr (m', k) \<Rightarrow> loop dAtA k m'))
       else if i > length dAtA then Inl ErrUnexpectedEOF
       else Inr m)"
    and switch_progress: "switch dAtA fieldNum wireType i j m = Inr (m', k) \<Longrightarrow> i < j \<Longrightarrow>
      j \<le> length dAtA \<Longrightarrow> i < k \<and> k \<le> length dAtA"
begin

lemma step_field:
  assumes "is_tag t fn wt"
    and "\<And>low high. length (low @ t # Y @ high) < 2 ^ 63 \<Longrightarrow>
      switch (low @ t # Y @ high) fn wt (length low) (Suc (length low)) m =
        Inr (m', Suc (length low) + length Y)"
  shows "steps loop (t # Y) m m'"
  unfolding steps_def
proof (intro allI impI)
  fix low high :: "byte list"
  assume "length (low @ (t # Y) @ high) < 2 ^ 63"
  then show "loop (low @ (t # Y) @ high) (length low) m =
      loop (low @ (t # Y) @ high) (length low + length (t # Y)) m'"
    using assms(2) [of low high] read_tag_byte [OF assms(1), of low "Y @ high"]
    by (subst loop_eq) simp
qed

lemma run_steps: "steps loop X m m' \<Longrightarrow> length X < 2 ^ 63 \<Longrightarrow> loop X 0 m = Inr m'"
  unfolding steps_def
proof -
  assume X: "\<forall>low high. length (low @ X @ high) < 2 ^ 63 \<longrightarrow>
      loop (low @ X @ high) (length low) m = loop (low @ X @ high) (length low + length X) m'"
    and len: "length X < 2 ^ 63"
  have "loop X 0 m = loop X (length X) m'" using X [rule_format, of "[]" "[]"] len by simp
  then show ?thesis by (simp add: loop_eq [of X "length X"])
qed

lemma step_string:
  assumes "is_tag t fn 2" and "\<And>d pre i. switch d fn 2 pre i m = get_string 2 d i (\<lambda>s. upd s m)"
  shows "steps loop (wire_string t s) m (upd s m)"
  unfolding wire_string_def
proof (rule step_field [OF assms(1)], unfold assms(2))
  fix low high :: "byte list"
  let ?v = "varint (of_nat (length s))"
  assume "length (low @ t # (?v @ to_bytes s) @ high) < 2 ^ 63"
  then have "read_length ((low @ [t]) @ ?v @ to_bytes s @ high) (length (low @ [t])) =
      Inr (length (low @ [t]) + length ?v, length (low @ [t]) + length ?v + length s)"
    using read_length_varint [of "low @ [t]" "to_bytes s" high] by simp
  moreover have "slice (length (low @ [t]) + length ?v) (length (low @ [t]) + length ?v + length s)
      ((low @ [t]) @ ?v @ to_bytes s @ high) = to_bytes s"
    using slice_append [of "low @ [t] @ ?v" "to_bytes s" high] by (simp add: add.assoc)
  ultimately show "get_string 2 (low @ t # (?v @ to_bytes s) @ high) (Suc (length low)) (\<lambda>s. upd s m) =
      Inr (upd s m, Suc (length low) + length (?v @ to_bytes s))"
    by (simp add: get_string_def)
qed

lemma step_string_field:
  assumes "is_tag t fn 2" and "\<And>d pre i. switch d fn 2 pre i m = get_string 2 d i (\<lambda>s. upd s m)"
    and "upd [] m = m"
  shows "steps loop (wire_string_field t s) m (upd s m)"
  using step_string [where upd = upd, OF assms(1,2), of s] assms(3)
  by (simp add: wire_string_field_def steps_Nil)

lemma step_varint_field:
  fixes upd :: "'a::len word \<Rightarrow> 'm \<Rightarrow> 'm"
  assumes "is_tag t fn 0" and "\<And>d pre i. switch d fn 0 pre i m = get_varint 0 d i (\<lambda>v. upd v m)"
    and "upd 0 m = m" and "ucast w = v" and "8 \<le> LENGTH('a)" and "LENGTH('a) \<le> 64"
  shows "steps loop (wire_varint_field t w) m (upd v m)"
proof -
  have "steps loop (t # varint w) m (upd (ucast w) m)"
    by (rule step_field [OF assms(1)])
      (use read_varint_narrow [where 'a = 'a, OF assms(5,6), of "_ @ [t]" w] in
        \<open>simp add: assms(2) get_varint_def\<close>)
  moreover have "v = 0" if "w = 0" using assms(4) that by auto
  ultimately show ?thesis
    using assms(3) by (auto simp: wire_varint_field_def steps_Nil assms(4))
qed

lemma step_bool_field:
  assumes "is_tag t fn 0" and "\<And>d pre i. switch d fn 0 pre i m = get_bool 0 d i (\<lambda>b. upd b m)"
    and "upd False m = m"
  shows "steps loop (wire_bool_field t b) m (upd b m)"
proof -
  have "varint 1 = [1]" by (simp add: varint_end word_less_nat_alt)
  then have "wire_bool_field t b = wire_varint_field t (if b then 1 else 0)"
    by (simp add: wire_bool_field_def wire_varint_field_def)
  moreover have "\<And>d pre i. switch d fn 0 pre i m = get_varint 0 d i (\<lambda>v::int64. upd (v \<noteq> 0) m)"
    by (simp add: assms(2) get_bool_def)
  from step_varint_field [where upd = "\<lambda>v::int64. upd (v \<noteq> 0)", OF assms(1) this, of "if b then 1 else 0"]
  have "steps loop (wire_varint_field t (if b then 1 else 0)) m (upd b m)"
    by (simp add: assms(3) split: if_splits)
  ultimately show ?thesis by simp
qed

lemma step_message:
  assumes "is_tag t fn 2"
    and "\<And>d pre i. switch d fn 2 pre i m = get_message 2 d i unmarshal fresh old (\<lambda>s. upd s m)"
    and "length X < 2 ^ 63 \<Longrightarrow> unmarshal X (case old of None \<Rightarrow> fresh | Some m \<Rightarrow> m) = Inr s"
  shows "steps loop (t # varint (of_nat (length X)) @ X) m (upd s m)"
proof (rule step_field [OF assms(1)], unfold assms(2))
  fix low high :: "byte list"
  let ?v = "varint (of_nat (length X))"
  assume len: "length (low @ t # (?v @ X) @ high) < 2 ^ 63"
  then have "read_length ((low @ [t]) @ ?v @ X @ high) (length (low @ [t])) =
      Inr (length (low @ [t]) + length ?v, length (low @ [t]) + length ?v + length X)"
    using read_length_varint [of "low @ [t]" X high] by simp
  moreover have "slice (length (low @ [t]) + length ?v) (length (low @ [t]) + length ?v + length X)
      ((low @ [t]) @ ?v @ X @ high) = X"
    using slice_append [of "low @ [t] @ ?v" X high] by (simp add: add.assoc)
  ultimately show "get_message 2 (low @ t # (?v @ X) @ high) (Suc (length low)) unmarshal fresh old
      (\<lambda>s. upd s m) = Inr (upd s m, Suc (length low) + length (?v @ X))"
    using len assms(3) by (simp add: get_message_def)
qed

lemma step_message_field:
  assumes "is_tag t fn 2"
    and "\<And>d pre i. switch d fn 2 pre i m =
      get_message 2 d i unmarshal fresh None (\<lambda>s. upd (Some s) m)"
    and "upd None m = m" and "\<And>s. sub = Some s \<Longrightarrow> length (X s) < 2 ^ 63 \<Longrightarrow> unmarshal (X s) fresh = Inr s"
  shows "steps loop (wire_message_field t (map_option X sub)) m (upd sub m)"
  using step_message [where upd = "\<lambda>s. upd (Some s)" and fresh = fresh and old = None, OF assms(1,2)]
    assms(3,4)
  by (cases sub) (simp_all add: wire_message_field_def steps_Nil)

text \<open>An unknown field is appended to what is kept of them.\<close>

lemma step_unknown:
  assumes "is_tag t fn wt" and "\<And>d pre i. switch d fn wt pre i m = get_unknown d pre (\<lambda>x. keep x m)"
    and "\<And>high. length (t # Y @ high) < 2 ^ 63 \<Longrightarrow> skipMsg (t # Y @ high) = Inr (length (t # Y))"
  shows "steps loop (t # Y) m (keep (t # Y) m)"
proof (rule step_field [OF assms(1)], unfold assms(2))
  fix low high :: "byte list"
  assume "length (low @ t # Y @ high) < 2 ^ 63"
  then show "get_unknown (low @ t # Y @ high) (length low) (\<lambda>x. keep x m) =
      Inr (keep (t # Y) m, Suc (length low) + length Y)"
    using assms(3) [of high] slice_append [of low "t # Y" high] by (simp add: get_unknown_def)
qed

end

end
