(* ===== verification/Msg_Encode.thy ===== *)
theory Msg_Encode
  imports Wire
begin

text \<open>
  Marshalling of the wire types (\<^verbatim>\<open>gen/msg/msg.pb.go\<close>, methods \<^verbatim>\<open>Size\<close>, \<^verbatim>\<open>MarshalToSizedBuffer\<close>,
  \<^verbatim>\<open>MarshalTo\<close> and \<^verbatim>\<open>Marshal\<close>).  The list of writers of a type is its \<^verbatim>\<open>MarshalToSizedBuffer\<close> body
  from top to bottom: unknown fields first, then the fields from the last to the first, each
  ending where the previous one began.  \<open>wire_\<close> definitions give the reference encoding, front to
  back; the lemmas show that every writer list writes it and that every \<^verbatim>\<open>Size\<close> is its length.
\<close>

text \<open>The size of a length-delimited field, as all \<^verbatim>\<open>Size\<close> methods compute it.\<close>

definition size_delimited :: "nat \<Rightarrow> nat" where
  "size_delimited l = 1 + l + sovMsg (of_nat l)"

definition size_string :: "gostring \<Rightarrow> nat" where
  "size_string s = (let l = length s in if l > 0 then size_delimited l else 0)"

definition size_varint :: "uint64 \<Rightarrow> nat" where
  "size_varint v = (if v \<noteq> 0 then 1 + sovMsg v else 0)"

definition size_message :: "('m \<Rightarrow> nat) \<Rightarrow> 'm option \<Rightarrow> nat" where
  "size_message size_of sub = (case sub of None \<Rightarrow> 0 | Some m \<Rightarrow> size_delimited (size_of m))"

lemmas size_defs = size_delimited_def size_string_def size_varint_def size_message_def

text \<open>\<^verbatim>\<open>MarshalTo\<close> reslices a buffer (given up to its capacity) and marshals into its start.\<close>

definition marshal_to :: "nat \<Rightarrow> sized_writer \<Rightarrow> byte list \<Rightarrow> (byte list \<times> nat) option" where
  "marshal_to n marshal dAtA =
     (if length dAtA < n then None
      else (case marshal (take n dAtA) of
              None \<Rightarrow> None
            | Some (X, k) \<Rightarrow> Some (X @ drop n dAtA, k)))"

lemma marshal_to_writes:
  "writes (seq ws) X \<Longrightarrow> n = length X \<Longrightarrow> n \<le> length dAtA \<Longrightarrow>
   marshal_to n (sized ws) dAtA = Some (X @ drop n dAtA, n)"
  by (simp add: marshal_to_def sized_writes)

section \<open>\<^verbatim>\<open>Offer\<close>\<close>

definition PbOffer_fields :: "PbOffer \<Rightarrow> writer list" where
  "PbOffer_fields m =
     [put_bytes (po_XXX m),
      put_string_field 0x22 (po_Signature m),
      put_varint_field 0x18 (po_Timestamp m),
      put_varint_field 0x10 (ucast (po_Capacity m)),
      put_string_field 0x0a (po_Multiaddr m)]"

definition PbOffer_MarshalToSizedBuffer :: "PbOffer \<Rightarrow> sized_writer" where
  "PbOffer_MarshalToSizedBuffer m = sized (PbOffer_fields m)"

definition PbOffer_Size :: "PbOffer \<Rightarrow> nat" where
  "PbOffer_Size m =
     size_string (po_Multiaddr m) +
     size_varint (ucast (po_Capacity m)) +
     size_varint (po_Timestamp m) +
     size_string (po_Signature m) +
     length (po_XXX m)"

definition PbOffer_Marshal :: "PbOffer \<Rightarrow> byte list option" where
  "PbOffer_Marshal m = marshal_with (PbOffer_Size m) (PbOffer_MarshalToSizedBuffer m)"

definition PbOffer_MarshalTo :: "PbOffer \<Rightarrow> byte list \<Rightarrow> (byte list \<times> nat) option" where
  "PbOffer_MarshalTo m = marshal_to (PbOffer_Size m) (PbOffer_MarshalToSizedBuffer m)"

definition wire_PbOffer :: "PbOffer \<Rightarrow> byte list" where
  "wire_PbOffer m =
     wire_string_field 0x0a (po_Multiaddr m) @
     wire_varint_field 0x10 (ucast (po_Capacity m)) @
     wire_varint_field 0x18 (po_Timestamp m) @
     wire_string_field 0x22 (po_Signature m) @
     po_XXX m"

lemma writes_PbOffer: "writes (seq (PbOffer_fields m)) (wire_PbOffer m)"
  unfolding PbOffer_fields_def wire_PbOffer_def 
  by (rule writes_seq_eq, (rule field_writes writes_seq_Cons writes_seq_Nil)+, simp)

lemma length_wire_PbOffer: "length (wire_PbOffer m) = PbOffer_Size m"
  by (simp add: wire_PbOffer_def PbOffer_Size_def field_lengths size_defs  split: option.splits)

section \<open>\<^verbatim>\<open>Contract\<close>\<close>

definition PbContract_fields :: "PbContract \<Rightarrow> writer list" where
  "PbContract_fields m =
     [put_bytes (pc_XXX m),
      put_varint_field 0x30 (ucast (pc_Datatype m)),
      put_varint_field 0x28 (ucast (pc_Cardinality m)),
      put_varint_field 0x20 (pc_Expires m),
      put_string_field 0x1a (pc_Cid m),
      put_varint_field 0x10 (ucast (pc_Size m)),
      put_string_field 0x0a (pc_OwnerId m)]"

definition PbContract_MarshalToSizedBuffer :: "PbContract \<Rightarrow> sized_writer" where
  "PbContract_MarshalToSizedBuffer m = sized (PbContract_fields m)"

definition PbContract_Size :: "PbContract \<Rightarrow> nat" where
  "PbContract_Size m =
     size_string (pc_OwnerId m) +
     size_varint (ucast (pc_Size m)) +
     size_string (pc_Cid m) +
     size_varint (pc_Expires m) +
     size_varint (ucast (pc_Cardinality m)) +
     size_varint (ucast (pc_Datatype m)) +
     length (pc_XXX m)"

definition PbContract_Marshal :: "PbContract \<Rightarrow> byte list option" where
  "PbContract_Marshal m = marshal_with (PbContract_Size m) (PbContract_MarshalToSizedBuffer m)"

definition PbContract_MarshalTo :: "PbContract \<Rightarrow> byte list \<Rightarrow> (byte list \<times> nat) option" where
  "PbContract_MarshalTo m = marshal_to (PbContract_Size m) (PbContract_MarshalToSizedBuffer m)"

definition wire_PbContract :: "PbContract \<Rightarrow> byte list" where
  "wire_PbContract m =
     wire_string_field 0x0a (pc_OwnerId m) @
     wire_varint_field 0x10 (ucast (pc_Size m)) @
     wire_string_field 0x1a (pc_Cid m) @
     wire_varint_field 0x20 (pc_Expires m) @
     wire_varint_field 0x28 (ucast (pc_Cardinality m)) @
     wire_varint_field 0x30 (ucast (pc_Datatype m)) @
     pc_XXX m"

lemma writes_PbContract: "writes (seq (PbContract_fields m)) (wire_PbContract m)"
  unfolding PbContract_fields_def wire_PbContract_def 
  by (rule writes_seq_eq, (rule field_writes writes_seq_Cons writes_seq_Nil)+, simp)

lemma length_wire_PbContract: "length (wire_PbContract m) = PbContract_Size m"
  by (simp add: wire_PbContract_def PbContract_Size_def field_lengths size_defs  split: option.splits)

section \<open>\<^verbatim>\<open>MsgStorageRequest\<close>\<close>

definition MsgStorageRequest_fields :: "MsgStorageRequest \<Rightarrow> writer list" where
  "MsgStorageRequest_fields m =
     [put_bytes (sq_XXX m),
      put_message_field 0x12 (map_option PbContract_MarshalToSizedBuffer (sq_Contract m)),
      put_string_field 0x0a (sq_Multiaddr m)]"

definition MsgStorageRequest_MarshalToSizedBuffer :: "MsgStorageRequest \<Rightarrow> sized_writer" where
  "MsgStorageRequest_MarshalToSizedBuffer m = sized (MsgStorageRequest_fields m)"

definition MsgStorageRequest_Size :: "MsgStorageRequest \<Rightarrow> nat" where
  "MsgStorageRequest_Size m =
     size_string (sq_Multiaddr m) +
     size_message PbContract_Size (sq_Contract m) +
     length (sq_XXX m)"

definition MsgStorageRequest_Marshal :: "MsgStorageRequest \<Rightarrow> byte list option" where
  "MsgStorageRequest_Marshal m = marshal_with (MsgStorageRequest_Size m) (MsgStorageRequest_MarshalToSizedBuffer m)"

definition MsgStorageRequest_MarshalTo :: "MsgStorageRequest \<Rightarrow> byte list \<Rightarrow> (byte list \<times> nat) option" where
  "MsgStorageRequest_MarshalTo m = marshal_to (MsgStorageRequest_Size m) (MsgStorageRequest_MarshalToSizedBuffer m)"

definition wire_MsgStorageRequest :: "MsgStorageRequest \<Rightarrow> byte list" where
  "wire_MsgStorageRequest m =
     wire_string_field 0x0a (sq_Multiaddr m) @
     wire_message_field 0x12 (map_option wire_PbContract (sq_Contract m)) @
     sq_XXX m"

lemma writes_MsgStorageRequest: "writes (seq (MsgStorageRequest_fields m)) (wire_MsgStorageRequest m)"
  unfolding MsgStorageRequest_fields_def wire_MsgStorageRequest_def PbContract_MarshalToSizedBuffer_def
  by (rule writes_seq_eq, (rule writes_PbContract field_writes writes_seq_Cons writes_seq_Nil)+, simp)

lemma length_wire_MsgStorageRequest: "length (wire_MsgStorageRequest m) = MsgStorageRequest_Size m"
  by (simp add: wire_MsgStorageRequest_def MsgStorageRequest_Size_def field_lengths size_defs length_wire_PbContract split: option.splits)

section \<open>\<^verbatim>\<open>MsgStorageResponse\<close>\<close>

definition MsgStorageResponse_fields :: "MsgStorageResponse \<Rightarrow> writer list" where
  "MsgStorageResponse_fields m =
     [put_bytes (sp_XXX m),
      put_bool_field 0x10 (sp_Done m),
      put_string_field 0x0a (sp_Multiaddr m)]"

definition MsgStorageResponse_MarshalToSizedBuffer :: "MsgStorageResponse \<Rightarrow> sized_writer" where
  "MsgStorageResponse_MarshalToSizedBuffer m = sized (MsgStorageResponse_fields m)"

definition MsgStorageResponse_Size :: "MsgStorageResponse \<Rightarrow> nat" where
  "MsgStorageResponse_Size m =
     size_string (sp_Multiaddr m) +
     (if sp_Done m then 2 else 0) +
     length (sp_XXX m)"

definition MsgStorageResponse_Marshal :: "MsgStorageResponse \<Rightarrow> byte list option" where
  "MsgStorageResponse_Marshal m = marshal_with (MsgStorageResponse_Size m) (MsgStorageResponse_MarshalToSizedBuffer m)"

definition MsgStorageResponse_MarshalTo :: "MsgStorageResponse \<Rightarrow> byte list \<Rightarrow> (byte list \<times> nat) option" where
  "MsgStorageResponse_MarshalTo m = marshal_to (MsgStorageResponse_Size m) (MsgStorageResponse_MarshalToSizedBuffer m)"

definition wire_MsgStorageResponse :: "MsgStorageResponse \<Rightarrow> byte list" where
  "wire_MsgStorageResponse m =
     wire_string_field 0x0a (sp_Multiaddr m) @
     wire_bool_field 0x10 (sp_Done m) @
     sp_XXX m"

lemma writes_MsgStorageResponse: "writes (seq (MsgStorageResponse_fields m)) (wire_MsgStorageResponse m)"
  unfolding MsgStorageResponse_fields_def wire_MsgStorageResponse_def 
  by (rule writes_seq_eq, (rule field_writes writes_seq_Cons writes_seq_Nil)+, simp)

lemma length_wire_MsgStorageResponse: "length (wire_MsgStorageResponse m) = MsgStorageResponse_Size m"
  by (simp add: wire_MsgStorageResponse_def MsgStorageResponse_Size_def field_lengths size_defs  split: option.splits)

section \<open>\<^verbatim>\<open>MsgRetrievalRequest\<close>\<close>

definition MsgRetrievalRequest_fields :: "MsgRetrievalRequest \<Rightarrow> writer list" where
  "MsgRetrievalRequest_fields m =
     [put_bytes (rq_XXX m),
      put_string_field 0x22 (rq_Signature m),
      put_varint_field 0x18 (rq_Timestamp m),
      put_string_field 0x12 (rq_OwnerId m),
      put_string_field 0x0a (rq_Multiaddr m)]"

definition MsgRetrievalRequest_MarshalToSizedBuffer :: "MsgRetrievalRequest \<Rightarrow> sized_writer" where
  "MsgRetrievalRequest_MarshalToSizedBuffer m = sized (MsgRetrievalRequest_fields m)"

definition MsgRetrievalRequest_Size :: "MsgRetrievalRequest \<Rightarrow> nat" where
  "MsgRetrievalRequest_Size m =
     size_string (rq_Multiaddr m) +
     size_string (rq_OwnerId m) +
     size_varint (rq_Timestamp m) +
     size_string (rq_Signature m) +
     length (rq_XXX m)"

definition MsgRetrievalRequest_Marshal :: "MsgRetrievalRequest \<Rightarrow> byte list option" where
  "MsgRetrievalRequest_Marshal m = marshal_with (MsgRetrievalRequest_Size m) (MsgRetrievalRequest_MarshalToSizedBuffer m)"

definition MsgRetrievalRequest_MarshalTo :: "MsgRetrievalRequest \<Rightarrow> byte list \<Rightarrow> (byte list \<times> nat) option" where
  "MsgRetrievalRequest_MarshalTo m = marshal_to (MsgRetrievalRequest_Size m) (MsgRetrievalRequest_MarshalToSizedBuffer m)"

definition wire_MsgRetrievalRequest :: "MsgRetrievalRequest \<Rightarrow> byte list" where
  "wire_MsgRetrievalRequest m =
     wire_string_field 0x0a (rq_Multiaddr m) @
     wire_string_field 0x12 (rq_OwnerId m) @
     wire_varint_field 0x18 (rq_Timestamp m) @
     wire_string_field 0x22 (rq_Signature m) @
     rq_XXX m"

lemma writes_MsgRetrievalRequest: "writes (seq (MsgRetrievalRequest_fields m)) (wire_MsgRetrievalRequest m)"
  unfolding MsgRetrievalRequest_fields_def wire_MsgRetrievalRequest_def 
  by (rule writes_seq_eq, (rule field_writes writes_seq_Cons writes_seq_Nil)+, simp)

lemma length_wire_MsgRetrievalRequest: "length (wire_MsgRetrievalRequest m) = MsgRetrievalRequest_Size m"
  by (simp add: wire_MsgRetrievalRequest_def MsgRetrievalRequest_Size_def field_lengths size_defs  split: option.splits)

section \<open>\<^verbatim>\<open>MsgRetrievalResponse\<close>\<close>

definition MsgRetrievalResponse_fields :: "MsgRetrievalResponse \<Rightarrow> writer list" where
  "MsgRetrievalResponse_fields m =
     [put_bytes (rp_XXX m),
      put_strings_field 0x0a (rp_IpfsLinks m)]"

definition MsgRetrievalResponse_MarshalToSizedBuffer :: "MsgRetrievalResponse \<Rightarrow> sized_writer" where
  "MsgRetrievalResponse_MarshalToSizedBuffer m = sized (MsgRetrievalResponse_fields m)"

definition MsgRetrievalResponse_Size :: "MsgRetrievalResponse \<Rightarrow> nat" where
  "MsgRetrievalResponse_Size m =
     (if length (rp_IpfsLinks m) > 0 then \<Sum>s\<leftarrow>rp_IpfsLinks m. size_delimited (length s) else 0) +
     length (rp_XXX m)"

definition MsgRetrievalResponse_Marshal :: "MsgRetrievalResponse \<Rightarrow> byte list option" where
  "MsgRetrievalResponse_Marshal m = marshal_with (MsgRetrievalResponse_Size m) (MsgRetrievalResponse_MarshalToSizedBuffer m)"

definition MsgRetrievalResponse_MarshalTo :: "MsgRetrievalResponse \<Rightarrow> byte list \<Rightarrow> (byte list \<times> nat) option" where
  "MsgRetrievalResponse_MarshalTo m = marshal_to (MsgRetrievalResponse_Size m) (MsgRetrievalResponse_MarshalToSizedBuffer m)"

definition wire_MsgRetrievalResponse :: "MsgRetrievalResponse \<Rightarrow> byte list" where
  "wire_MsgRetrievalResponse m =
     wire_strings_field 0x0a (rp_IpfsLinks m) @
     rp_XXX m"

lemma writes_MsgRetrievalResponse: "writes (seq (MsgRetrievalResponse_fields m)) (wire_MsgRetrievalResponse m)"
  unfolding MsgRetrievalResponse_fields_def wire_MsgRetrievalResponse_def 
  by (rule writes_seq_eq, (rule field_writes writes_seq_Cons writes_seq_Nil)+, simp)

lemma length_wire_MsgRetrievalResponse: "length (wire_MsgRetrievalResponse m) = MsgRetrievalResponse_Size m"
  by (simp add: wire_MsgRetrievalResponse_def MsgRetrievalResponse_Size_def field_lengths size_defs  split: option.splits)

section \<open>\<^verbatim>\<open>Message\<close>\<close>

definition PbMessage_fields :: "PbMessage \<Rightarrow> writer list" where
  "PbMessage_fields m =
     [put_bytes (m_XXX m),
      put_message_field 0x2a (map_option MsgRetrievalResponse_MarshalToSizedBuffer (m_RetrievalResponse m)),
      put_message_field 0x22 (map_option MsgRetrievalRequest_MarshalToSizedBuffer (m_RetrievalRequest m)),
      put_message_field 0x1a (map_option MsgStorageResponse_MarshalToSizedBuffer (m_StorageResponse m)),
      put_message_field 0x12 (map_option MsgStorageRequest_MarshalToSizedBuffer (m_StorageRequest m)),
      put_varint_field 0x08 (scast (m_Type m))]"

definition PbMessage_MarshalToSizedBuffer :: "PbMessage \<Rightarrow> sized_writer" where
  "PbMessage_MarshalToSizedBuffer m = sized (PbMessage_fields m)"

definition PbMessage_Size :: "PbMessage \<Rightarrow> nat" where
  "PbMessage_Size m =
     size_varint (scast (m_Type m)) +
     size_message MsgStorageRequest_Size (m_StorageRequest m) +
     size_message MsgStorageResponse_Size (m_StorageResponse m) +
     size_message MsgRetrievalRequest_Size (m_RetrievalRequest m) +
     size_message MsgRetrievalResponse_Size (m_RetrievalResponse m) +
     length (m_XXX m)"

definition PbMessage_Marshal :: "PbMessage \<Rightarrow> byte list option" where
  "PbMessage_Marshal m = marshal_with (PbMessage_Size m) (PbMessage_MarshalToSizedBuffer m)"

definition PbMessage_MarshalTo :: "PbMessage \<Rightarrow> byte list \<Rightarrow> (byte list \<times> nat) option" where
  "PbMessage_MarshalTo m = marshal_to (PbMessage_Size m) (PbMessage_MarshalToSizedBuffer m)"

definition wire_PbMessage :: "PbMessage \<Rightarrow> byte list" where
  "wire_PbMessage m =
     wire_varint_field 0x08 (scast (m_Type m)) @
     wire_message_field 0x12 (map_option wire_MsgStorageRequest (m_StorageRequest m)) @
     wire_message_field 0x1a (map_option wire_MsgStorageResponse (m_StorageResponse m)) @
     wire_message_field 0x22 (map_option wire_MsgRetrievalRequest (m_RetrievalRequest m)) @
     wire_message_field 0x2a (map_option wire_MsgRetrievalResponse (m_RetrievalResponse m)) @
     m_XXX m"

lemma writes_PbMessage: "writes (seq (PbMessage_fields m)) (wire_PbMessage m)"
  unfolding PbMessage_fields_def wire_PbMessage_def MsgStorageRequest_MarshalToSizedBuffer_def MsgStorageResponse_MarshalToSizedBuffer_def MsgRetrievalRequest_MarshalToSizedBuffer_def MsgRetrievalResponse_MarshalToSizedBuffer_def
  by (rule writes_seq_eq, (rule writes_MsgStorageRequest writes_MsgStorageResponse writes_MsgRetrievalRequest writes_MsgRetrievalResponse field_writes writes_seq_Cons writes_seq_Nil)+, simp)

lemma length_wire_PbMessage: "length (wire_PbMessage m) = PbMessage_Size m"
  by (simp add: wire_PbMessage_def PbMessage_Size_def field_lengths size_defs length_wire_MsgStorageRequest length_wire_MsgStorageResponse length_wire_MsgRetrievalRequest length_wire_MsgRetrievalResponse split: option.splits)

section \<open>Properties\<close>

text \<open>C10: Marshalling a message never runs out of its buffer: the size computed beforehand is exactly
  the number of bytes the back-to-front writers produce, and what they produce is the reference
  encoding, fields in ascending order with zero values left out.\<close>

theorem marshal_exact:
  "PbMessage_Marshal m = Some (wire_PbMessage m) \<and> length (wire_PbMessage m) = PbMessage_Size m"
  by (simp add: PbMessage_Marshal_def PbMessage_MarshalToSizedBuffer_def
      marshal_with_writes [OF writes_PbMessage] length_wire_PbMessage)

text \<open>\<^verbatim>\<open>MarshalTo\<close> fills a prefix of the given buffer with the same bytes, reports their number and
  leaves the rest of the buffer as it was.\<close>

theorem marshal_to_prefix:
  assumes "PbMessage_Size m \<le> length dAtA"
  shows "PbMessage_MarshalTo m dAtA =
    Some (wire_PbMessage m @ drop (PbMessage_Size m) dAtA, PbMessage_Size m)"
  using assms
  by (simp add: PbMessage_MarshalTo_def PbMessage_MarshalToSizedBuffer_def
      marshal_to_writes [OF writes_PbMessage] length_wire_PbMessage)

theorem marshal_to_prefix_witness:
  "PbMessage_MarshalTo (zero_PbMessage\<lparr>m_Type := 1\<rparr>) [9, 9, 9] = Some ([8, 1, 9], 2)"
proof -
  let ?m = "zero_PbMessage\<lparr>m_Type := 1\<rparr>"
  have n: "PbMessage_Size ?m = 2"
    by (simp add: PbMessage_Size_def zero_PbMessage_def size_defs sovMsg_small)
  have "wire_PbMessage ?m = [8, 1]"
    by (simp add: wire_PbMessage_def zero_PbMessage_def wire_varint_field_def wire_message_field_def
        varint.simps word_le_nat_alt)
  with marshal_to_prefix [of ?m "[9, 9, 9]"] n show ?thesis by simp
qed

end
