(* ===== verification/Msg_Decode.thy ===== *)
theory Msg_Decode
  imports Wire_Decode Msg_Encode
begin

text \<open>
  The \<^verbatim>\<open>Unmarshal\<close> methods of the wire types (\<^verbatim>\<open>gen/msg/msg.pb.go\<close>).  Per type: the switch on the
  field number, the loop, and the method, which starts the loop at the front of the buffer on
  the target it is given.  Each loop is an instance of the locale \<open>unmarshaller\<close>; the \<open>_steps\<close>
  lemmas say how it reads each encoded field, and together that it reads back a whole encoding.
\<close>

section \<open>\<^verbatim>\<open>Offer\<close>\<close>

definition PbOffer_switch :: "PbOffer field_switch" where
  "PbOffer_switch dAtA fieldNum wireType preIndex iNdEx m =
     (if fieldNum = 1 then
        get_string wireType dAtA iNdEx (\<lambda>s. m\<lparr>po_Multiaddr := s\<rparr>)
      else if fieldNum = 2 then
        get_varint wireType dAtA iNdEx (\<lambda>v. m\<lparr>po_Capacity := v\<rparr>)
      else if fieldNum = 3 then
        get_varint wireType dAtA iNdEx (\<lambda>v. m\<lparr>po_Timestamp := v\<rparr>)
      else if fieldNum = 4 then
        get_string wireType dAtA iNdEx (\<lambda>s. m\<lparr>po_Signature := s\<rparr>)
      else get_unknown dAtA preIndex (\<lambda>x. m\<lparr>po_XXX := po_XXX m @ x\<rparr>))"

lemma PbOffer_switch_progress:
  "PbOffer_switch dAtA fieldNum wireType i j m = Inr (m', k) \<Longrightarrow> i < j \<Longrightarrow> j \<le> length dAtA \<Longrightarrow>
   i < k \<and> k \<le> length dAtA"
  by (auto simp: PbOffer_switch_def dest!: get_progress split: if_splits)

function PbOffer_loop :: "PbOffer field_loop" where
  "PbOffer_loop dAtA iNdEx m =
     (if iNdEx < length dAtA
      then (case read_tag dAtA iNdEx of
              Inl e \<Rightarrow> Inl e
            | Inr (fieldNum, wireType, j) \<Rightarrow>
                (case PbOffer_switch dAtA fieldNum wireType iNdEx j m of
                   Inl e \<Rightarrow> Inl e
                 | Inr (m', k) \<Rightarrow> PbOffer_loop dAtA k m'))
      else if iNdEx > length dAtA then Inl ErrUnexpectedEOF
      else Inr m)"
  by auto

termination PbOffer_loop
  by (relation "measure (\<lambda>(dAtA, iNdEx, _). length dAtA - iNdEx)")
    (auto dest!: read_tag_progress PbOffer_switch_progress)

declare PbOffer_loop.simps [simp del]

definition PbOffer_Unmarshal :: "byte list \<Rightarrow> PbOffer \<Rightarrow> wire_error + PbOffer" where
  "PbOffer_Unmarshal dAtA m = PbOffer_loop dAtA 0 m"

interpretation pb_offer: unmarshaller PbOffer_switch PbOffer_loop
  by (unfold_locales, rule PbOffer_loop.simps) (rule PbOffer_switch_progress)

lemma PbOffer_step_Multiaddr:
  "po_Multiaddr m = [] \<Longrightarrow>
     steps PbOffer_loop (wire_string_field 0x0a s) m (m\<lparr>po_Multiaddr := s\<rparr>)"
  by (rule pb_offer.step_string_field [where fn = 1]; simp add: is_tag_def PbOffer_switch_def)

lemma PbOffer_step_Capacity:
  "po_Capacity m = 0 \<Longrightarrow>
     steps PbOffer_loop (wire_varint_field 0x10 (ucast v)) m (m\<lparr>po_Capacity := v\<rparr>)"
  by (rule pb_offer.step_varint_field [where fn = 2 and upd = "\<lambda>v m. m\<lparr>po_Capacity := v\<rparr>"];
      simp add: is_tag_def PbOffer_switch_def wire_simps)

lemma PbOffer_step_Timestamp:
  "po_Timestamp m = 0 \<Longrightarrow>
     steps PbOffer_loop (wire_varint_field 0x18 (v)) m (m\<lparr>po_Timestamp := v\<rparr>)"
  by (rule pb_offer.step_varint_field [where fn = 3 and upd = "\<lambda>v m. m\<lparr>po_Timestamp := v\<rparr>"];
      simp add: is_tag_def PbOffer_switch_def wire_simps)

lemma PbOffer_step_Signature:
  "po_Signature m = [] \<Longrightarrow>
     steps PbOffer_loop (wire_string_field 0x22 s) m (m\<lparr>po_Signature := s\<rparr>)"
  by (rule pb_offer.step_string_field [where fn = 4]; simp add: is_tag_def PbOffer_switch_def)

text \<open>No unknown fields are attached.\<close>

definition PbOffer_known :: "PbOffer \<Rightarrow> bool" where
  "PbOffer_known m \<longleftrightarrow> po_XXX m = []"

lemmas PbOffer_steps = PbOffer_step_Multiaddr PbOffer_step_Capacity PbOffer_step_Timestamp PbOffer_step_Signature

lemma PbOffer_reads:
  assumes "PbOffer_known m"
  shows "steps PbOffer_loop (wire_PbOffer m) zero_PbOffer m"
  unfolding wire_PbOffer_def
  by (rule steps_eq)
    (rule steps_append PbOffer_steps steps_empty |
      (use assms in \<open>simp add: PbOffer_known_def zero_PbOffer_def; fail\<close>))+

lemma PbOffer_roundtrip:
  "PbOffer_known m \<Longrightarrow> length (wire_PbOffer m) < 2 ^ 63 \<Longrightarrow> PbOffer_Unmarshal (wire_PbOffer m) zero_PbOffer = Inr m"
  unfolding PbOffer_Unmarshal_def by (rule pb_offer.run_steps [OF PbOffer_reads])

section \<open>\<^verbatim>\<open>Contract\<close>\<close>

definition PbContract_switch :: "PbContract field_switch" where
  "PbContract_switch dAtA fieldNum wireType preIndex iNdEx m =
     (if fieldNum = 1 then
        get_string wireType dAtA iNdEx (\<lambda>s. m\<lparr>pc_OwnerId := s\<rparr>)
      else if fieldNum = 2 then
        get_varint wireType dAtA iNdEx (\<lambda>v. m\<lparr>pc_Size := v\<rparr>)
      else if fieldNum = 3 then
        get_string wireType dAtA iNdEx (\<lambda>s. m\<lparr>pc_Cid := s\<rparr>)
      else if fieldNum = 4 then
        get_varint wireType dAtA iNdEx (\<lambda>v. m\<lparr>pc_Expires := v\<rparr>)
      else if fieldNum = 5 then
        get_varint wireType dAtA iNdEx (\<lambda>v. m\<lparr>pc_Cardinality := v\<rparr>)
      else if fieldNum = 6 then
        get_varint wireType dAtA iNdEx (\<lambda>v. m\<lparr>pc_Datatype := v\<rparr>)
      else get_unknown dAtA preIndex (\<lambda>x. m\<lparr>pc_XXX := pc_XXX m @ x\<rparr>))"

lemma PbContract_switch_progress:
  "PbContract_switch dAtA fieldNum wireType i j m = Inr (m', k) \<Longrightarrow> i < j \<Longrightarrow> j \<le> length dAtA \<Longrightarrow>
   i < k \<and> k \<le> length dAtA"
  by (auto simp: PbContract_switch_def dest!: get_progress split: if_splits)

function PbContract_loop :: "PbContract field_loop" where
  "PbContract_loop dAtA iNdEx m =
     (if iNdEx < length dAtA
      then (case read_tag dAtA iNdEx of
              Inl e \<Rightarrow> Inl e
            | Inr (fieldNum, wireType, j) \<Rightarrow>
                (case PbContract_switch dAtA fieldNum wireType iNdEx j m of
                   Inl e \<Rightarrow> Inl e
                 | Inr (m', k) \<Rightarrow> PbContract_loop dAtA k m'))
      else if iNdEx > length dAtA then Inl ErrUnexpectedEOF
      else Inr m)"
  by auto

termination PbContract_loop
  by (relation "measure (\<lambda>(dAtA, iNdEx, _). length dAtA - iNdEx)")
    (auto dest!: read_tag_progress PbContract_switch_progress)

declare PbContract_loop.simps [simp del]

definition PbContract_Unmarshal :: "byte list \<Rightarrow> PbContract \<Rightarrow> wire_error + PbContract" where
  "PbContract_Unmarshal dAtA m = PbContract_loop dAtA 0 m"

interpretation pb_contract: unmarshaller PbContract_switch PbContract_loop
  by (unfold_locales, rule PbContract_loop.simps) (rule PbContract_switch_progress)

lemma PbContract_step_OwnerId:
  "pc_OwnerId m = [] \<Longrightarrow>
     steps PbContract_loop (wire_string_field 0x0a s) m (m\<lparr>pc_OwnerId := s\<rparr>)"
  by (rule pb_contract.step_string_field [where fn = 1]; simp add: is_tag_def PbContract_switch_def)

lemma PbContract_step_Size:
  "pc_Size m = 0 \<Longrightarrow>
     steps PbContract_loop (wire_varint_field 0x10 (ucast v)) m (m\<lparr>pc_Size := v\<rparr>)"
  by (rule pb_contract.step_varint_field [where fn = 2 and upd = "\<lambda>v m. m\<lparr>pc_Size := v\<rparr>"];
      simp add: is_tag_def PbContract_switch_def wire_simps)

lemma PbContract_step_Cid:
  "pc_Cid m = [] \<Longrightarrow>
     steps PbContract_loop (wire_string_field 0x1a s) m (m\<lparr>pc_Cid := s\<rparr>)"
  by (rule pb_contract.step_string_field [where fn = 3]; simp add: is_tag_def PbContract_switch_def)

lemma PbContract_step_Expires:
  "pc_Expires m = 0 \<Longrightarrow>
     steps PbContract_loop (wire_varint_field 0x20 (v)) m (m\<lparr>pc_Expires := v\<rparr>)"
  by (rule pb_contract.step_varint_field [where fn = 4 and upd = "\<lambda>v m. m\<lparr>pc_Expires := v\<rparr>"];
      simp add: is_tag_def PbContract_switch_def wire_simps)

lemma PbContract_step_Cardinality:
  "pc_Cardinality m = 0 \<Longrightarrow>
     steps PbContract_loop (wire_varint_field 0x28 (ucast v)) m (m\<lparr>pc_Cardinality := v\<rparr>)"
  by (rule pb_contract.step_varint_field [where fn = 5 and upd = "\<lambda>v m. m\<lparr>pc_Cardinality := v\<rparr>"];
      simp add: is_tag_def PbContract_switch_def wire_simps)

lemma PbContract_step_Datatype:
  "pc_Datatype m = 0 \<Longrightarrow>
     steps PbContract_loop (wire_varint_field 0x30 (ucast v)) m (m\<lparr>pc_Datatype := v\<rparr>)"
  by (rule pb_contract.step_varint_field [where fn = 6 and upd = "\<lambda>v m. m\<lparr>pc_Datatype := v\<rparr>"];
      simp add: is_tag_def PbContract_switch_def wire_simps)

definition PbContract_known :: "PbContract \<Rightarrow> bool" where
  "PbContract_known m \<longleftrightarrow> pc_XXX m = []"

lemmas PbContract_steps = PbContract_step_OwnerId PbContract_step_Size PbContract_step_Cid PbContract_step_Expires PbContract_step_Cardinality PbContract_step_Datatype

lemma PbContract_reads:
  assumes "PbContract_known m"
  shows "steps PbContract_loop (wire_PbContract m) zero_PbContract m"
  unfolding wire_PbContract_def
  by (rule steps_eq)
    (rule steps_append PbContract_steps steps_empty |
      (use assms in \<open>simp add: PbContract_known_def zero_PbContract_def; fail\<close>))+

lemma PbContract_roundtrip:
  "PbContract_known m \<Longrightarrow> length (wire_PbContract m) < 2 ^ 63 \<Longrightarrow> PbContract_Unmarshal (wire_PbContract m) zero_PbContract = Inr m"
  unfolding PbContract_Unmarshal_def by (rule pb_contract.run_steps [OF PbContract_reads])

section \<open>\<^verbatim>\<open>MsgStorageRequest\<close>\<close>

definition MsgStorageRequest_switch :: "MsgStorageRequest field_switch" where
  "MsgStorageRequest_switch dAtA fieldNum wireType preIndex iNdEx m =
     (if fieldNum = 1 then
        get_string wireType dAtA iNdEx (\<lambda>s. m\<lparr>sq_Multiaddr := s\<rparr>)
      else if fieldNum = 2 then
        get_message wireType dAtA iNdEx PbContract_Unmarshal zero_PbContract (sq_Contract m)
          (\<lambda>s. m\<lparr>sq_Contract := Some s\<rparr>)
      else get_unknown dAtA preIndex (\<lambda>x. m\<lparr>sq_XXX := sq_XXX m @ x\<rparr>))"

lemma MsgStorageRequest_switch_progress:
  "MsgStorageRequest_switch dAtA fieldNum wireType i j m = Inr (m', k) \<Longrightarrow> i < j \<Longrightarrow> j \<le> length dAtA \<Longrightarrow>
   i < k \<and> k \<le> length dAtA"
  by (auto simp: MsgStorageRequest_switch_def dest!: get_progress split: if_splits)

function MsgStorageRequest_loop :: "MsgStorageRequest field_loop" where
  "MsgStorageRequest_loop dAtA iNdEx m =
     (if iNdEx < length dAtA
      then (case read_tag dAtA iNdEx of
              Inl e \<Rightarrow> Inl e
            | Inr (fieldNum, wireType, j) \<Rightarrow>
                (case MsgStorageRequest_switch dAtA fieldNum wireType iNdEx j m of
                   Inl e \<Rightarrow> Inl e
                 | Inr (m', k) \<Rightarrow> MsgStorageRequest_loop dAtA k m'))
      else if iNdEx > length dAtA then Inl ErrUnexpectedEOF
      else Inr m)"
  by auto

termination MsgStorageRequest_loop
  by (relation "measure (\<lambda>(dAtA, iNdEx, _). length dAtA - iNdEx)")
    (auto dest!: read_tag_progress MsgStorageRequest_switch_progress)

declare MsgStorageRequest_loop.simps [simp del]

definition MsgStorageRequest_Unmarshal :: "byte list \<Rightarrow> MsgStorageRequest \<Rightarrow> wire_error + MsgStorageRequest" where
  "MsgStorageRequest_Unmarshal dAtA m = MsgStorageRequest_loop dAtA 0 m"

interpretation storage_request: unmarshaller MsgStorageRequest_switch MsgStorageRequest_loop
  by (unfold_locales, rule MsgStorageRequest_loop.simps) (rule MsgStorageRequest_switch_progress)

lemma MsgStorageRequest_step_Multiaddr:
  "sq_Multiaddr m = [] \<Longrightarrow>
     steps MsgStorageRequest_loop (wire_string_field 0x0a s) m (m\<lparr>sq_Multiaddr := s\<rparr>)"
  by (rule storage_request.step_string_field [where fn = 1]; simp add: is_tag_def MsgStorageRequest_switch_def)

lemma MsgStorageRequest_step_Contract:
  "sq_Contract m = None \<Longrightarrow> (\<And>s. sub = Some s \<Longrightarrow> PbContract_known s) \<Longrightarrow>
     steps MsgStorageRequest_loop (wire_message_field 0x12 (map_option wire_PbContract sub)) m (m\<lparr>sq_Contract := sub\<rparr>)"
  by (rule storage_request.step_message_field [where fn = 2 and unmarshal = PbContract_Unmarshal and
        fresh = zero_PbContract and upd = "\<lambda>s m. m\<lparr>sq_Contract := s\<rparr>"];
      simp add: is_tag_def MsgStorageRequest_switch_def PbContract_roundtrip)

definition MsgStorageRequest_known :: "MsgStorageRequest \<Rightarrow> bool" where
  "MsgStorageRequest_known m \<longleftrightarrow> sq_XXX m = [] \<and>
     (case sq_Contract m of None \<Rightarrow> True | Some s \<Rightarrow> PbContract_known s)"

lemmas MsgStorageRequest_steps = MsgStorageRequest_step_Multiaddr MsgStorageRequest_step_Contract

lemma MsgStorageRequest_reads:
  assumes "MsgStorageRequest_known m"
  shows "steps MsgStorageRequest_loop (wire_MsgStorageRequest m) zero_MsgStorageRequest m"
  unfolding wire_MsgStorageRequest_def
  by (rule steps_eq)
    (rule steps_append MsgStorageRequest_steps steps_empty |
      (use assms in \<open>simp add: MsgStorageRequest_known_def zero_MsgStorageRequest_def; fail\<close>))+

lemma MsgStorageRequest_roundtrip:
  "MsgStorageRequest_known m \<Longrightarrow> length (wire_MsgStorageRequest m) < 2 ^ 63 \<Longrightarrow> MsgStorageRequest_Unmarshal (wire_MsgStorageRequest m) zero_MsgStorageRequest = Inr m"
  unfolding MsgStorageRequest_Unmarshal_def by (rule storage_request.run_steps [OF MsgStorageRequest_reads])

section \<open>\<^verbatim>\<open>MsgStorageResponse\<close>\<close>

definition MsgStorageResponse_switch :: "MsgStorageResponse field_switch" where
  "MsgStorageResponse_switch dAtA fieldNum wireType preIndex iNdEx m =
     (if fieldNum = 1 then
        get_string wireType dAtA iNdEx (\<lambda>s. m\<lparr>sp_Multiaddr := s\<rparr>)
      else if fieldNum = 2 then
        get_bool wireType dAtA iNdEx (\<lambda>b. m\<lparr>sp_Done := b\<rparr>)
      else get_unknown dAtA preIndex (\<lambda>x. m\<lparr>sp_XXX := sp_XXX m @ x\<rparr>))"

lemma MsgStorageResponse_switch_progress:
  "MsgStorageResponse_switch dAtA fieldNum wireType i j m = Inr (m', k) \<Longrightarrow> i < j \<Longrightarrow> j \<le> length dAtA \<Longrightarrow>
   i < k \<and> k \<le> length dAtA"
  by (auto simp: MsgStorageResponse_switch_def dest!: get_progress split: if_splits)

function MsgStorageResponse_loop :: "MsgStorageResponse field_loop" where
  "MsgStorageResponse_loop dAtA iNdEx m =
     (if iNdEx < length dAtA
      then (case read_tag dAtA iNdEx of
              Inl e \<Rightarrow> Inl e
            | Inr (fieldNum, wireType, j) \<Rightarrow>
                (case MsgStorageResponse_switch dAtA fieldNum wireType iNdEx j m of
                   Inl e \<Rightarrow> Inl e
                 | Inr (m', k) \<Rightarrow> MsgStorageResponse_loop dAtA k m'))
      else if iNdEx > length dAtA then Inl ErrUnexpectedEOF
      else Inr m)"
  by auto

termination MsgStorageResponse_loop
  by (relation "measure (\<lambda>(dAtA, iNdEx, _). length dAtA - iNdEx)")
    (auto dest!: read_tag_progress MsgStorageResponse_switch_progress)

declare MsgStorageResponse_loop.simps [simp del]

definition MsgStorageResponse_Unmarshal :: "byte list \<Rightarrow> MsgStorageResponse \<Rightarrow> wire_error + MsgStorageResponse" where
  "MsgStorageResponse_Unmarshal dAtA m = MsgStorageResponse_loop dAtA 0 m"

interpretation storage_response: unmarshaller MsgStorageResponse_switch MsgStorageResponse_loop
  by (unfold_locales, rule MsgStorageResponse_loop.simps) (rule MsgStorageResponse_switch_progress)

lemma MsgStorageResponse_step_Multiaddr:
  "sp_Multiaddr m = [] \<Longrightarrow>
     steps MsgStorageResponse_loop (wire_string_field 0x0a s) m (m\<lparr>sp_Multiaddr := s\<rparr>)"
  by (rule storage_response.step_string_field [where fn = 1]; simp add: is_tag_def MsgStorageResponse_switch_def)

lemma MsgStorageResponse_step_Done:
  "\<not> sp_Done m \<Longrightarrow>
     steps MsgStorageResponse_loop (wire_bool_field 0x10 b) m (m\<lparr>sp_Done := b\<rparr>)"
  by (rule storage_response.step_bool_field [where fn = 2]; simp add: is_tag_def MsgStorageResponse_switch_def)

definition MsgStorageResponse_known :: "MsgStorageResponse \<Rightarrow> bool" where
  "MsgStorageResponse_known m \<longleftrightarrow> sp_XXX m = []"

lemmas MsgStorageResponse_steps = MsgStorageResponse_step_Multiaddr MsgStorageResponse_step_Done

lemma MsgStorageResponse_reads:
  assumes "MsgStorageResponse_known m"
  shows "steps MsgStorageResponse_loop (wire_MsgStorageResponse m) zero_MsgStorageResponse m"
  unfolding wire_MsgStorageResponse_def
  by (rule steps_eq)
    (rule steps_append MsgStorageResponse_steps steps_empty |
      (use assms in \<open>simp add: MsgStorageResponse_known_def zero_MsgStorageResponse_def; fail\<close>))+

lemma MsgStorageResponse_roundtrip:
  "MsgStorageResponse_known m \<Longrightarrow> length (wire_MsgStorageResponse m) < 2 ^ 63 \<Longrightarrow> MsgStorageResponse_Unmarshal (wire_MsgStorageResponse m) zero_MsgStorageResponse = Inr m"
  unfolding MsgStorageResponse_Unmarshal_def by (rule storage_response.run_steps [OF MsgStorageResponse_reads])

section \<open>\<^verbatim>\<open>MsgRetrievalRequest\<close>\<close>

definition MsgRetrievalRequest_switch :: "MsgRetrievalRequest field_switch" where
  "MsgRetrievalRequest_switch dAtA fieldNum wireType preIndex iNdEx m =
     (if fieldNum = 1 then
        get_string wireType dAtA iNdEx (\<lambda>s. m\<lparr>rq_Multiaddr := s\<rparr>)
      else if fieldNum = 2 then
        get_string wireType dAtA iNdEx (\<lambda>s. m\<lparr>rq_OwnerId := s\<rparr>)
      else if fieldNum = 3 then
        get_varint wireType dAtA iNdEx (\<lambda>v. m\<lparr>rq_Timestamp := v\<rparr>)
      else if fieldNum = 4 then
        get_string wireType dAtA iNdEx (\<lambda>s. m\<lparr>rq_Signature := s\<rparr>)
      else get_unknown dAtA preIndex (\<lambda>x. m\<lparr>rq_XXX := rq_XXX m @ x\<rparr>))"

lemma MsgRetrievalRequest_switch_progress:
  "MsgRetrievalRequest_switch dAtA fieldNum wireType i j m = Inr (m', k) \<Longrightarrow> i < j \<Longrightarrow> j \<le> length dAtA \<Longrightarrow>
   i < k \<and> k \<le> length dAtA"
  by (auto simp: MsgRetrievalRequest_switch_def dest!: get_progress split: if_splits)

function MsgRetrievalRequest_loop :: "MsgRetrievalRequest field_loop" where
  "MsgRetrievalRequest_loop dAtA iNdEx m =
     (if iNdEx < length dAtA
      then (case read_tag dAtA iNdEx of
              Inl e \<Rightarrow> Inl e
            | Inr (fieldNum, wireType, j) \<Rightarrow>
                (case MsgRetrievalRequest_switch dAtA fieldNum wireType iNdEx j m of
                   Inl e \<Rightarrow> Inl e
                 | Inr (m', k) \<Rightarrow> MsgRetrievalRequest_loop dAtA k m'))
      else if iNdEx > length dAtA then Inl ErrUnexpectedEOF
      else Inr m)"
  by auto

termination MsgRetrievalRequest_loop
  by (relation "measure (\<lambda>(dAtA, iNdEx, _). length dAtA - iNdEx)")
    (auto dest!: read_tag_progress MsgRetrievalRequest_switch_progress)

declare MsgRetrievalRequest_loop.simps [simp del]

definition MsgRetrievalRequest_Unmarshal :: "byte list \<Rightarrow> MsgRetrievalRequest \<Rightarrow> wire_error + MsgRetrievalRequest" where
  "MsgRetrievalRequest_Unmarshal dAtA m = MsgRetrievalRequest_loop dAtA 0 m"

interpretation retrieval_request: unmarshaller MsgRetrievalRequest_switch MsgRetrievalRequest_loop
  by (unfold_locales, rule MsgRetrievalRequest_loop.simps) (rule MsgRetrievalRequest_switch_progress)

lemma MsgRetrievalRequest_step_Multiaddr:
  "rq_Multiaddr m = [] \<Longrightarrow>
     steps MsgRetrievalRequest_loop (wire_string_field 0x0a s) m (m\<lparr>rq_Multiaddr := s\<rparr>)"
  by (rule retrieval_request.step_string_field [where fn = 1]; simp add: is_tag_def MsgRetrievalRequest_switch_def)

lemma MsgRetrievalRequest_step_OwnerId:
  "rq_OwnerId m = [] \<Longrightarrow>
     steps MsgRetrievalRequest_loop (wire_string_field 0x12 s) m (m\<lparr>rq_OwnerId := s\<rparr>)"
  by (rule retrieval_request.step_string_field [where fn = 2]; simp add: is_tag_def MsgRetrievalRequest_switch_def)

lemma MsgRetrievalRequest_step_Timestamp:
  "rq_Timestamp m = 0 \<Longrightarrow>
     steps MsgRetrievalRequest_loop (wire_varint_field 0x18 (v)) m (m\<lparr>rq_Timestamp := v\<rparr>)"
  by (rule retrieval_request.step_varint_field [where fn = 3 and upd = "\<lambda>v m. m\<lparr>rq_Timestamp := v\<rparr>"];
      simp add: is_tag_def MsgRetrievalRequest_switch_def wire_simps)

lemma MsgRetrievalRequest_step_Signature:
  "rq_Signature m = [] \<Longrightarrow>
     steps MsgRetrievalRequest_loop (wire_string_field 0x22 s) m (m\<lparr>rq_Signature := s\<rparr>)"
  by (rule retrieval_request.step_string_field [where fn = 4]; simp add: is_tag_def MsgRetrievalRequest_switch_def)

definition MsgRetrievalRequest_known :: "MsgRetrievalRequest \<Rightarrow> bool" where
  "MsgRetrievalRequest_known m \<longleftrightarrow> rq_XXX m = []"

lemmas MsgRetrievalRequest_steps = MsgRetrievalRequest_step_Multiaddr MsgRetrievalRequest_step_OwnerId MsgRetrievalRequest_step_Timestamp MsgRetrievalRequest_step_Signature

lemma MsgRetrievalRequest_reads:
  assumes "MsgRetrievalRequest_known m"
  shows "steps MsgRetrievalRequest_loop (wire_MsgRetrievalRequest m) zero_MsgRetrievalRequest m"
  unfolding wire_MsgRetrievalRequest_def
  by (rule steps_eq)
    (rule steps_append MsgRetrievalRequest_steps steps_empty |
      (use assms in \<open>simp add: MsgRetrievalRequest_known_def zero_MsgRetrievalRequest_def; fail\<close>))+

lemma MsgRetrievalRequest_roundtrip:
  "MsgRetrievalRequest_known m \<Longrightarrow> length (wire_MsgRetrievalRequest m) < 2 ^ 63 \<Longrightarrow> MsgRetrievalRequest_Unmarshal (wire_MsgRetrievalRequest m) zero_MsgRetrievalRequest = Inr m"
  unfolding MsgRetrievalRequest_Unmarshal_def by (rule retrieval_request.run_steps [OF MsgRetrievalRequest_reads])

section \<open>\<^verbatim>\<open>MsgRetrievalResponse\<close>\<close>

definition MsgRetrievalResponse_switch :: "MsgRetrievalResponse field_switch" where
  "MsgRetrievalResponse_switch dAtA fieldNum wireType preIndex iNdEx m =
     (if fieldNum = 1 then
        get_string wireType dAtA iNdEx (\<lambda>s. m\<lparr>rp_IpfsLinks := rp_IpfsLinks m @ [s]\<rparr>)
      else get_unknown dAtA preIndex (\<lambda>x. m\<lparr>rp_XXX := rp_XXX m @ x\<rparr>))"

lemma MsgRetrievalResponse_switch_progress:
  "MsgRetrievalResponse_switch dAtA fieldNum wireType i j m = Inr (m', k) \<Longrightarrow> i < j \<Longrightarrow> j \<le> length dAtA \<Longrightarrow>
   i < k \<and> k \<le> length dAtA"
  by (auto simp: MsgRetrievalResponse_switch_def dest!: get_progress split: if_splits)

function MsgRetrievalResponse_loop :: "MsgRetrievalResponse field_loop" where
  "MsgRetrievalResponse_loop dAtA iNdEx m =
     (if iNdEx < length dAtA
      then (case read_tag dAtA iNdEx of
              Inl e \<Rightarrow> Inl e
            | Inr (fieldNum, wireType, j) \<Rightarrow>
                (case MsgRetrievalResponse_switch dAtA fieldNum wireType iNdEx j m of
                   Inl e \<Rightarrow> Inl e
                 | Inr (m', k) \<Rightarrow> MsgRetrievalResponse_loop dAtA k m'))
      else if iNdEx > length dAtA then Inl ErrUnexpectedEOF
      else Inr m)"
  by auto

termination MsgRetrievalResponse_loop
  by (relation "measure (\<lambda>(dAtA, iNdEx, _). length dAtA - iNdEx)")
    (auto dest!: read_tag_progress MsgRetrievalResponse_switch_progress)

declare MsgRetrievalResponse_loop.simps [simp del]

definition MsgRetrievalResponse_Unmarshal :: "byte list \<Rightarrow> MsgRetrievalResponse \<Rightarrow> wire_error + MsgRetrievalResponse" where
  "MsgRetrievalResponse_Unmarshal dAtA m = MsgRetrievalResponse_loop dAtA 0 m"

interpretation retrieval_response: unmarshaller MsgRetrievalResponse_switch MsgRetrievalResponse_loop
  by (unfold_locales, rule MsgRetrievalResponse_loop.simps) (rule MsgRetrievalResponse_switch_progress)

definition MsgRetrievalResponse_known :: "MsgRetrievalResponse \<Rightarrow> bool" where
  "MsgRetrievalResponse_known m \<longleftrightarrow> rp_XXX m = []"

lemma MsgRetrievalResponse_step_IpfsLinks:
  "steps MsgRetrievalResponse_loop (wire_strings_field 0x0a ss) m (m\<lparr>rp_IpfsLinks := rp_IpfsLinks m @ ss\<rparr>)"
proof (induction ss arbitrary: m)
  case Nil
  then show ?case by (simp add: wire_strings_field_def steps_Nil)
next
  case (Cons s ss)
  have "steps MsgRetrievalResponse_loop (wire_string 0x0a s) m (m\<lparr>rp_IpfsLinks := rp_IpfsLinks m @ [s]\<rparr>)"
    by (rule retrieval_response.step_string [where fn = 1]; simp add: is_tag_def MsgRetrievalResponse_switch_def)
  from steps_append [OF this Cons.IH] show ?case by (simp add: wire_strings_field_def)
qed

lemmas MsgRetrievalResponse_steps = MsgRetrievalResponse_step_IpfsLinks

lemma MsgRetrievalResponse_reads:
  assumes "MsgRetrievalResponse_known m"
  shows "steps MsgRetrievalResponse_loop (wire_MsgRetrievalResponse m) zero_MsgRetrievalResponse m"
  unfolding wire_MsgRetrievalResponse_def
  by (rule steps_eq)
    (rule steps_append MsgRetrievalResponse_steps steps_empty |
      (use assms in \<open>simp add: MsgRetrievalResponse_known_def zero_MsgRetrievalResponse_def; fail\<close>))+

lemma MsgRetrievalResponse_roundtrip:
  "MsgRetrievalResponse_known m \<Longrightarrow> length (wire_MsgRetrievalResponse m) < 2 ^ 63 \<Longrightarrow> MsgRetrievalResponse_Unmarshal (wire_MsgRetrievalResponse m) zero_MsgRetrievalResponse = Inr m"
  unfolding MsgRetrievalResponse_Unmarshal_def by (rule retrieval_response.run_steps [OF MsgRetrievalResponse_reads])

section \<open>\<^verbatim>\<open>Message\<close>\<close>

definition PbMessage_switch :: "PbMessage field_switch" where
  "PbMessage_switch dAtA fieldNum wireType preIndex iNdEx m =
     (if fieldNum = 1 then
        get_varint wireType dAtA iNdEx (\<lambda>v. m\<lparr>m_Type := v\<rparr>)
      else if fieldNum = 2 then
        get_message wireType dAtA iNdEx MsgStorageRequest_Unmarshal zero_MsgStorageRequest (m_StorageRequest m)
          (\<lambda>s. m\<lparr>m_StorageRequest := Some s\<rparr>)
      else if fieldNum = 3 then
        get_message wireType dAtA iNdEx MsgStorageResponse_Unmarshal zero_MsgStorageResponse (m_StorageResponse m)
          (\<lambda>s. m\<lparr>m_StorageResponse := Some s\<rparr>)
      else if fieldNum = 4 then
        get_message wireType dAtA iNdEx MsgRetrievalRequest_Unmarshal zero_MsgRetrievalRequest (m_RetrievalRequest m)
          (\<lambda>s. m\<lparr>m_RetrievalRequest := Some s\<rparr>)
      else if fieldNum = 5 then
        get_message wireType dAtA iNdEx MsgRetrievalResponse_Unmarshal zero_MsgRetrievalResponse (m_RetrievalResponse m)
          (\<lambda>s. m\<lparr>m_RetrievalResponse := Some s\<rparr>)
      else get_unknown dAtA preIndex (\<lambda>x. m\<lparr>m_XXX := m_XXX m @ x\<rparr>))"

lemma PbMessage_switch_progress:
  "PbMessage_switch dAtA fieldNum wireType i j m = Inr (m', k) \<Longrightarrow> i < j \<Longrightarrow> j \<le> length dAtA \<Longrightarrow>
   i < k \<and> k \<le> length dAtA"
  by (auto simp: PbMessage_switch_def dest!: get_progress split: if_splits)

function PbMessage_loop :: "PbMessage field_loop" where
  "PbMessage_loop dAtA iNdEx m =
     (if iNdEx < length dAtA
      then (case read_tag dAtA iNdEx of
              Inl e \<Rightarrow> Inl e
            | Inr (fieldNum, wireType, j) \<Rightarrow>
                (case PbMessage_switch dAtA fieldNum wireType iNdEx j m of
                   Inl e \<Rightarrow> Inl e
                 | Inr (m', k) \<Rightarrow> PbMessage_loop dAtA k m'))
      else if iNdEx > length dAtA then Inl ErrUnexpectedEOF
      else Inr m)"
  by auto

termination PbMessage_loop
  by (relation "measure (\<lambda>(dAtA, iNdEx, _). length dAtA - iNdEx)")
    (auto dest!: read_tag_progress PbMessage_switch_progress)

declare PbMessage_loop.simps [simp del]

definition PbMessage_Unmarshal :: "byte list \<Rightarrow> PbMessage \<Rightarrow> wire_error + PbMessage" where
  "PbMessage_Unmarshal dAtA m = PbMessage_loop dAtA 0 m"

interpretation pb_message: unmarshaller PbMessage_switch PbMessage_loop
  by (unfold_locales, rule PbMessage_loop.simps) (rule PbMessage_switch_progress)

lemma PbMessage_step_Type:
  "m_Type m = 0 \<Longrightarrow>
     steps PbMessage_loop (wire_varint_field 0x08 (scast v)) m (m\<lparr>m_Type := v\<rparr>)"
  by (rule pb_message.step_varint_field [where fn = 1 and upd = "\<lambda>v m. m\<lparr>m_Type := v\<rparr>"];
      simp add: is_tag_def PbMessage_switch_def wire_simps)

lemma PbMessage_step_StorageRequest:
  "m_StorageRequest m = None \<Longrightarrow> (\<And>s. sub = Some s \<Longrightarrow> MsgStorageRequest_known s) \<Longrightarrow>
     steps PbMessage_loop (wire_message_field 0x12 (map_option wire_MsgStorageRequest sub)) m (m\<lparr>m_StorageRequest := sub\<rparr>)"
  by (rule pb_message.step_message_field [where fn = 2 and unmarshal = MsgStorageRequest_Unmarshal and
        fresh = zero_MsgStorageRequest and upd = "\<lambda>s m. m\<lparr>m_StorageRequest := s\<rparr>"];
      simp add: is_tag_def PbMessage_switch_def MsgStorageRequest_roundtrip)

lemma PbMessage_step_StorageResponse:
  "m_StorageResponse m = None \<Longrightarrow> (\<And>s. sub = Some s \<Longrightarrow> MsgStorageResponse_known s) \<Longrightarrow>
     steps PbMessage_loop (wire_message_field 0x1a (map_option wire_MsgStorageResponse sub)) m (m\<lparr>m_StorageResponse := sub\<rparr>)"
  by (rule pb_message.step_message_field [where fn = 3 and unmarshal = MsgStorageResponse_Unmarshal and
        fresh = zero_MsgStorageResponse and upd = "\<lambda>s m. m\<lparr>m_StorageResponse := s\<rparr>"];
      simp add: is_tag_def PbMessage_switch_def MsgStorageResponse_roundtrip)

lemma PbMessage_step_RetrievalRequest:
  "m_RetrievalRequest m = None \<Longrightarrow> (\<And>s. sub = Some s \<Longrightarrow> MsgRetrievalRequest_known s) \<Longrightarrow>
     steps PbMessage_loop (wire_message_field 0x22 (map_option wire_MsgRetrievalRequest sub)) m (m\<lparr>m_RetrievalRequest := sub\<rparr>)"
  by (rule pb_message.step_message_field [where fn = 4 and unmarshal = MsgRetrievalRequest_Unmarshal and
        fresh = zero_MsgRetrievalRequest and upd = "\<lambda>s m. m\<lparr>m_RetrievalRequest := s\<rparr>"];
      simp add: is_tag_def PbMessage_switch_def MsgRetrievalRequest_roundtrip)

lemma PbMessage_step_RetrievalResponse:
  "m_RetrievalResponse m = None \<Longrightarrow> (\<And>s. sub = Some s \<Longrightarrow> MsgRetrievalResponse_known s) \<Longrightarrow>
     steps PbMessage_loop (wire_message_field 0x2a (map_option wire_MsgRetrievalResponse sub)) m (m\<lparr>m_RetrievalResponse := sub\<rparr>)"
  by (rule pb_message.step_message_field [where fn = 5 and unmarshal = MsgRetrievalResponse_Unmarshal and
        fresh = zero_MsgRetrievalResponse and upd = "\<lambda>s m. m\<lparr>m_RetrievalResponse := s\<rparr>"];
      simp add: is_tag_def PbMessage_switch_def MsgRetrievalResponse_roundtrip)

definition PbMessage_known :: "PbMessage \<Rightarrow> bool" where
  "PbMessage_known m \<longleftrightarrow> m_XXX m = [] \<and>
     (case m_StorageRequest m of None \<Rightarrow> True | Some s \<Rightarrow> MsgStorageRequest_known s) \<and>
     (case m_StorageResponse m of None \<Rightarrow> True | Some s \<Rightarrow> MsgStorageResponse_known s) \<and>
     (case m_RetrievalRequest m of None \<Rightarrow> True | Some s \<Rightarrow> MsgRetrievalRequest_known s) \<and>
     (case m_RetrievalResponse m of None \<Rightarrow> True | Some s \<Rightarrow> MsgRetrievalResponse_known s)"

lemmas PbMessage_steps = PbMessage_step_Type PbMessage_step_StorageRequest PbMessage_step_StorageResponse PbMessage_step_RetrievalRequest PbMessage_step_RetrievalResponse

lemma PbMessage_reads:
  assumes "PbMessage_known m"
  shows "steps PbMessage_loop (wire_PbMessage m) zero_PbMessage m"
  unfolding wire_PbMessage_def
  by (rule steps_eq)
    (rule steps_append PbMessage_steps steps_empty |
      (use assms in \<open>simp add: PbMessage_known_def zero_PbMessage_def; fail\<close>))+

lemma PbMessage_roundtrip:
  "PbMessage_known m \<Longrightarrow> length (wire_PbMessage m) < 2 ^ 63 \<Longrightarrow> PbMessage_Unmarshal (wire_PbMessage m) zero_PbMessage = Inr m"
  unfolding PbMessage_Unmarshal_def by (rule pb_message.run_steps [OF PbMessage_reads])

end
