(* ===== verification/Transport.thy ===== *)
theory Transport
  imports Messages Msg_Decode
begin

text \<open>
  From an application message to bytes and back: \<^verbatim>\<open>messages/entities.go\<close> on top of the generated
  codec, and what a remote node can send.
\<close>

section \<open>Varints\<close>

lemma sovMsg_le: "unat v < 128 ^ Suc k \<Longrightarrow> sovMsg v \<le> Suc k"
proof (induction k arbitrary: v)
  case 0
  then have "v < 128" by (simp add: word_less_nat_alt)
  then show ?case by (simp add: sovMsg_small)
next
  case (Suc k)
  show ?case
  proof (cases "v < 128")
    case True
    then show ?thesis by (simp add: sovMsg_small)
  next
    case False
    have "unat (drop_bit 7 v) = unat v div 128"
      by (simp add: unat_drop_bit_eq drop_bit_eq_div [of _ "unat v"])
    also have "\<dots> < 128 ^ Suc k"
      by (rule less_mult_imp_div_less) (use Suc.prems in simp)
    finally have "sovMsg (drop_bit 7 v) \<le> Suc k" by (rule Suc.IH)
    with False show ?thesis by (simp add: sovMsg_step)
  qed
qed

lemma sovMsg_le_10: "sovMsg v \<le> 10"
proof -
  have "(2::nat) ^ 64 \<le> 128 ^ Suc 9" by simp
  then have "unat v < 128 ^ Suc 9" using unat_less_2p [of v] by (simp only: len_of_numeral_defs) simp
  then show ?thesis using sovMsg_le [of v 9] by simp
qed

text \<open>A varint takes one to ten bytes, the number \<^verbatim>\<open>sovMsg\<close> computes; writing it touches exactly
  these bytes and reading from its start gives the value and the position behind it.\<close>

theorem varint_roundtrip:
  assumes "length room = sovMsg v"
  shows "1 \<le> sovMsg v \<and> sovMsg v \<le> 10 \<and>
    (\<exists>bs. encodeVarintMsg v (low @ room @ high, length low + sovMsg v) =
            Some (low @ bs @ high, length low) \<and> length bs = sovMsg v \<and>
          read_varint (low @ bs @ high) 0 (length low) (0::uint64) = Inr (v, length low + sovMsg v))"
  using sovMsg_le_10 [of v] sovMsg_pos [of v] read_varint_varint [of low v high]
    writesD [OF writes_encodeVarintMsg, of room v "length low + sovMsg v" low high] assms
  by (auto simp: length_varint)

theorem varint_roundtrip_witness:
  "\<exists>bs. encodeVarintMsg 300 ([7, 0, 0, 9], 3) = Some (7 # bs @ [9], 1) \<and> length bs = 2"
proof -
  have "sovMsg 300 = 2"
    by (simp add: sovMsg_step sovMsg_small word_le_nat_alt word_less_nat_alt drop_bit_eq_div)
  with varint_roundtrip [of "[0, 0]" 300 "[7]" "[9]"] show ?thesis
    by (auto simp: eval_nat_numeral)
qed

section \<open>Whole messages\<close>

text \<open>C9: Unmarshalling what was marshalled gives back the message: every field, nested message and
  repeated field, for any message below 2 to the 63 bytes that carries no unknown fields.\<close>

theorem message_wire_roundtrip:
  assumes "PbMessage_known m" and "PbMessage_Size m < 2 ^ 63"
  shows "\<exists>bs. PbMessage_Marshal m = Some bs \<and> length bs = PbMessage_Size m \<and>
    PbMessage_Unmarshal bs zero_PbMessage = Inr m"
  using assms PbMessage_roundtrip [of m]
  by (intro exI [of _ "wire_PbMessage m"])
    (simp add: PbMessage_Marshal_def PbMessage_MarshalToSizedBuffer_def length_wire_PbMessage
      marshal_with_writes [OF writes_PbMessage])

text \<open>C8: What one node sends another receives: marshalling an application message to bytes and
  reading them back gives the message with its times cut to whole seconds.\<close>

theorem application_roundtrip:
  assumes "PbMessage_Size (MarshalToProtobuf msg) < 2 ^ 63"
  shows "\<exists>bs pb. PbMessage_Marshal (MarshalToProtobuf msg) = Some bs \<and>
    PbMessage_Unmarshal bs zero_PbMessage = Inr pb \<and>
    UnmarshalFromProtobuf pb = Inr (Some (trunc_message msg))"
proof -
  have "PbMessage_known (MarshalToProtobuf msg)"
    by (cases msg) (simp_all add: Marshal_defs zero_PbMessage_def PbMessage_known_def
        MsgStorageRequest_known_def MsgStorageResponse_known_def MsgRetrievalRequest_known_def
        MsgRetrievalResponse_known_def PbContract_known_def)
  from PbMessage_roundtrip [OF this] assms show ?thesis
    by (intro exI [of _ "wire_PbMessage (MarshalToProtobuf msg)"] exI [of _ "MarshalToProtobuf msg"])
      (simp add: PbMessage_Marshal_def PbMessage_MarshalToSizedBuffer_def length_wire_PbMessage
        marshal_with_writes [OF writes_PbMessage] Unmarshal_MarshalToProtobuf)
qed

section \<open>What else may arrive\<close>

text \<open>The translation of a received message panics exactly when the sub-message its type announces
  is missing, and two bytes from the wire are enough: the message with only a type decodes without
  an error, and translating it dereferences nil.\<close>

theorem missing_submessage_panics:
  "(UnmarshalFromProtobuf msg = Inl NilDereference) = (\<not> announced_present msg) \<and>
   PbMessage_Unmarshal [8, 1] zero_PbMessage = Inr (zero_PbMessage\<lparr>m_Type := 1\<rparr>) \<and>
   UnmarshalFromProtobuf (zero_PbMessage\<lparr>m_Type := 1\<rparr>) = Inl NilDereference"
proof -
  let ?m = "zero_PbMessage\<lparr>m_Type := 1\<rparr>"
  have w: "wire_PbMessage ?m = [8, 1]"
    by (simp add: wire_PbMessage_def zero_PbMessage_def wire_varint_field_def wire_message_field_def
        varint_end word_less_nat_alt)
  have "PbMessage_known ?m" by (simp add: PbMessage_known_def zero_PbMessage_def)
  from PbMessage_roundtrip [OF this] w have "PbMessage_Unmarshal [8, 1] zero_PbMessage = Inr ?m" by simp
  moreover have "\<not> announced_present ?m" by (simp add: announced_present_def zero_PbMessage_def)
  ultimately show ?thesis by (simp add: Unmarshal_panics_iff)
qed

lemma skip_varint_field:
  assumes "is_tag t fn 0"
  shows "skipMsg (t # varint v @ high) = Inr (length (t # varint v))"
proof -
  have "read_varint (t # varint v @ high) 0 (Suc 0) (0::uint64) = Inr (v, Suc (length (varint v)))"
    using read_varint_varint [of "[t]" v high] by simp
  moreover have "Suc (length (varint v)) < 2 ^ 63" using sovMsg_le_10 [of v] by (simp add: length_varint)
  ultimately show ?thesis
    using read_varint_tag [OF assms, of "[]" "varint v @ high"] tag_wireType [OF assms]
    by (simp add: skipMsg_def skip_loop.simps [of _ 0] skip_value_def)
qed

text \<open>A field this version does not know survives a node: appended to a message, a varint field
  with an unused number decodes into the kept bytes of the message and nothing else, and
  marshalling the message again writes the field back.\<close>

theorem unknown_field_kept:
  assumes "PbMessage_known m" and "is_tag t fn 0" and "5 < fn"
    and "PbMessage_Size m + 11 < 2 ^ 63"
  shows "let field = t # varint v
    in PbMessage_Unmarshal (wire_PbMessage m @ field) zero_PbMessage = Inr (m\<lparr>m_XXX := field\<rparr>) \<and>
       PbMessage_Marshal (m\<lparr>m_XXX := field\<rparr>) = Some (wire_PbMessage m @ field)"
proof -
  let ?f = "t # varint v" and ?m = "m\<lparr>m_XXX := t # varint v\<rparr>"
  have known: "m_XXX m = []" using assms(1) by (simp add: PbMessage_known_def)
  have "steps PbMessage_loop ?f m (m\<lparr>m_XXX := m_XXX m @ ?f\<rparr>)"
    by (rule pb_message.step_unknown [where keep = "\<lambda>x m. m\<lparr>m_XXX := m_XXX m @ x\<rparr>", OF assms(2)])
      (use assms(3) skip_varint_field [OF assms(2)] in \<open>simp_all add: PbMessage_switch_def\<close>)
  from steps_append [OF PbMessage_reads [OF assms(1)] this] known
  have steps: "steps PbMessage_loop (wire_PbMessage m @ ?f) zero_PbMessage ?m" by simp
  have "length (wire_PbMessage m @ ?f) < 2 ^ 63"
    using assms(4) sovMsg_le_10 [of v] by (simp add: length_wire_PbMessage length_varint)
  from pb_message.run_steps [OF steps this]
  have "PbMessage_Unmarshal (wire_PbMessage m @ ?f) zero_PbMessage = Inr ?m"
    by (simp add: PbMessage_Unmarshal_def)
  moreover have "wire_PbMessage ?m = wire_PbMessage m @ ?f"
    using known by (simp add: wire_PbMessage_def)
  moreover have "PbMessage_Marshal ?m = Some (wire_PbMessage ?m)"
    by (simp add: PbMessage_Marshal_def PbMessage_MarshalToSizedBuffer_def length_wire_PbMessage
      marshal_with_writes [OF writes_PbMessage])
  ultimately show ?thesis by (simp add: Let_def)
qed

section \<open>Witnesses\<close>

lemma demo_message_size: "PbMessage_Size (zero_PbMessage\<lparr>m_Type := 1\<rparr>) = 2"
  by (simp add: PbMessage_Size_def zero_PbMessage_def size_defs sovMsg_small)

lemma demo_message_known: "PbMessage_known (zero_PbMessage\<lparr>m_Type := 1\<rparr>)"
  by (simp add: PbMessage_known_def zero_PbMessage_def)

theorem message_wire_roundtrip_witness:
  "\<exists>bs. length bs = 2 \<and> PbMessage_Unmarshal bs zero_PbMessage = Inr (zero_PbMessage\<lparr>m_Type := 1\<rparr>)"
  using message_wire_roundtrip [of "zero_PbMessage\<lparr>m_Type := 1\<rparr>"]
  by (auto simp: demo_message_size demo_message_known)

theorem application_roundtrip_witness:
  "\<exists>bs pb. PbMessage_Unmarshal bs zero_PbMessage = Inr pb \<and>
    UnmarshalFromProtobuf pb =
      Inr (Some (MStorageResponse \<lparr>SP_Multiaddr = ''/ip4/1'', SP_Done = True\<rparr>))"
proof -
  let ?msg = "MStorageResponse \<lparr>SP_Multiaddr = ''/ip4/1'', SP_Done = True\<rparr>"
  have "PbMessage_Size (MarshalToProtobuf ?msg) < 2 ^ 63"
    by (simp add: PbMessage_Size_def Marshal_defs zero_PbMessage_def size_defs sovMsg_small
        MsgStorageResponse_Size_def Message_Type_defs word_less_nat_alt)
  from application_roundtrip [OF this] show ?thesis by auto
qed

theorem unknown_field_kept_witness:
  "PbMessage_Unmarshal (wire_PbMessage (zero_PbMessage\<lparr>m_Type := 1\<rparr>) @ 0x30 # varint 5) zero_PbMessage =
     Inr (zero_PbMessage\<lparr>m_Type := 1, m_XXX := 0x30 # varint 5\<rparr>)"
proof -
  have "is_tag 0x30 6 0" by (simp add: is_tag_def)
  then show ?thesis
    using unknown_field_kept [of "zero_PbMessage\<lparr>m_Type := 1\<rparr>" "0x30" 6 5]
    by (simp add: demo_message_size demo_message_known Let_def)
qed

end
