(* ===== verification/Events.thy ===== *)
theory Events
  imports Entities
begin

text \<open>
  The events a node reports to its subscribers (\<^verbatim>\<open>events/entities.go\<close>) and their translation to the
  API's wire structs (\<^verbatim>\<open>gen/api/api.pb.go\<close>), of which only the data fields are kept.
\<close>

section \<open>The API structs\<close>

record ApiOffer =
  ao_Multiaddr :: gostring
  ao_Capacity :: uint32
  ao_Timestamp :: int64
  ao_Signature :: gostring

record ApiContract =
  ac_OwnerId :: gostring
  ac_Size :: uint32
  ac_Cid :: gostring
  ac_Expires :: int64
  ac_Cardinality :: uint32
  ac_Datatype :: uint32

record EvtOfferPub =
  eo_Offer :: "ApiOffer option"

record EvtContractPub =
  ec_Multiaddr :: gostring
  ec_Contracts :: "ApiContract list"

record EvtStorageRequest =
  eq_Multiaddr :: gostring
  eq_Contract :: "ApiContract option"

record EvtStorageResponse =
  ep_Multiaddr :: gostring
  ep_Done :: bool

record EvtRetrievalRequest =
  er_Multiaddr :: gostring

record EvtRetrievalResponse =
  es_IpfsLinks :: "gostring list"

datatype Event_Type =
  Event_UNKNOWN | Event_OFFER_PUB | Event_CONTRACT_PUB | Event_STORAGE_REQUEST |
  Event_STORAGE_RESPONSE | Event_RETRIEVAL_REQUEST | Event_RETRIEVAL_RESPONSE

record ApiEvent =
  e_Type :: Event_Type
  e_OfferPub :: "EvtOfferPub option"
  e_ContractPub :: "EvtContractPub option"
  e_StorageRequest :: "EvtStorageRequest option"
  e_StorageResponse :: "EvtStorageResponse option"
  e_RetrievalRequest :: "EvtRetrievalRequest option"
  e_RetrievalResponse :: "EvtRetrievalResponse option"

definition zero_ApiContract :: ApiContract where
  "zero_ApiContract = \<lparr>ac_OwnerId = [], ac_Size = 0, ac_Cid = [], ac_Expires = 0,
     ac_Cardinality = 0, ac_Datatype = 0\<rparr>"

definition zero_ApiEvent :: ApiEvent where
  "zero_ApiEvent = \<lparr>e_Type = Event_UNKNOWN, e_OfferPub = None, e_ContractPub = None,
     e_StorageRequest = None, e_StorageResponse = None, e_RetrievalRequest = None,
     e_RetrievalResponse = None\<rparr>"

section \<open>The node's events\<close>

datatype event =
  OfferPub Offer
| ContractPub gostring "Contract list"
| StorageRequestEvt gostring Contract
| StorageResponseEvt gostring bool
| RetrievalRequestEvt gostring
| RetrievalResponseEvt "gostring list"

definition ApiContract_of :: "Contract \<Rightarrow> ApiContract" where
  "ApiContract_of c = \<lparr>ac_OwnerId = c_OwnerID c, ac_Size = c_Size c, ac_Cid = c_Cid c,
     ac_Expires = Unix (c_Expires c), ac_Cardinality = c_Cardinality c,
     ac_Datatype = c_Datatype c\<rparr>"

text \<open>The published offer's time and signature are not passed on.\<close>

definition OfferPub_Marshal :: "Offer \<Rightarrow> ApiEvent" where
  "OfferPub_Marshal x = zero_ApiEvent
     \<lparr>e_Type := Event_OFFER_PUB,
      e_OfferPub := Some \<lparr>eo_Offer = Some \<lparr>ao_Multiaddr = o_Multiaddr x,
        ao_Capacity = o_Capacity x, ao_Timestamp = 0, ao_Signature = []\<rparr>\<rparr>\<rparr>"

text \<open>The two index loops of \<^verbatim>\<open>ContractPub.MarshalToProtobuf\<close>: fill a slice, take its addresses.\<close>

fun fill_contracts :: "nat \<Rightarrow> Contract list \<Rightarrow> ApiContract list \<Rightarrow> ApiContract list" where
  "fill_contracts 0 cs out = out"
| "fill_contracts (Suc k) cs out =
     fill_contracts k cs (out[length cs - Suc k := ApiContract_of (cs ! (length cs - Suc k))])"

definition ContractPub_Marshal :: "gostring \<Rightarrow> Contract list \<Rightarrow> ApiEvent" where
  "ContractPub_Marshal addr cs = zero_ApiEvent
     \<lparr>e_Type := Event_CONTRACT_PUB,
      e_ContractPub := Some \<lparr>ec_Multiaddr = addr,
        ec_Contracts = fill_contracts (length cs) cs (replicate (length cs) zero_ApiContract)\<rparr>\<rparr>"

definition StorageRequestEvt_Marshal :: "gostring \<Rightarrow> Contract \<Rightarrow> ApiEvent" where
  "StorageRequestEvt_Marshal addr c = zero_ApiEvent
     \<lparr>e_Type := Event_STORAGE_REQUEST,
      e_StorageRequest := Some \<lparr>eq_Multiaddr = addr, eq_Contract = Some (ApiContract_of c)\<rparr>\<rparr>"

definition StorageResponseEvt_Marshal :: "gostring \<Rightarrow> bool \<Rightarrow> ApiEvent" where
  "StorageResponseEvt_Marshal addr d = zero_ApiEvent
     \<lparr>e_Type := Event_STORAGE_RESPONSE,
      e_StorageResponse := Some \<lparr>ep_Multiaddr = addr, ep_Done = d\<rparr>\<rparr>"

definition RetrievalRequestEvt_Marshal :: "gostring \<Rightarrow> ApiEvent" where
  "RetrievalRequestEvt_Marshal addr = zero_ApiEvent
     \<lparr>e_Type := Event_RETRIEVAL_REQUEST, e_RetrievalRequest := Some \<lparr>er_Multiaddr = addr\<rparr>\<rparr>"

definition RetrievalResponseEvt_Marshal :: "gostring list \<Rightarrow> ApiEvent" where
  "RetrievalResponseEvt_Marshal links = zero_ApiEvent
     \<lparr>e_Type := Event_RETRIEVAL_RESPONSE, e_RetrievalResponse := Some \<lparr>es_IpfsLinks = links\<rparr>\<rparr>"

fun Event_Marshal :: "event \<Rightarrow> ApiEvent" where
  "Event_Marshal (OfferPub x) = OfferPub_Marshal x"
| "Event_Marshal (ContractPub addr cs) = ContractPub_Marshal addr cs"
| "Event_Marshal (StorageRequestEvt addr c) = StorageRequestEvt_Marshal addr c"
| "Event_Marshal (StorageResponseEvt addr d) = StorageResponseEvt_Marshal addr d"
| "Event_Marshal (RetrievalRequestEvt addr) = RetrievalRequestEvt_Marshal addr"
| "Event_Marshal (RetrievalResponseEvt links) = RetrievalResponseEvt_Marshal links"

section \<open>What the translation keeps\<close>

lemma fill_contracts_eq:
  "k \<le> length cs \<Longrightarrow> length out = length cs \<Longrightarrow>
   fill_contracts k cs out =
     take (length cs - k) out @ map ApiContract_of (drop (length cs - k) cs)"
proof (induction k arbitrary: out)
  case (Suc k)
  let ?i = "length cs - Suc k"
  have i: "?i < length cs" "Suc ?i = length cs - k" using Suc.prems(1) by auto
  have "fill_contracts (Suc k) cs out =
      take (Suc ?i) (out[?i := ApiContract_of (cs ! ?i)]) @ map ApiContract_of (drop (Suc ?i) cs)"
    using Suc i by simp
  also have "\<dots> = take ?i out @ ApiContract_of (cs ! ?i) # map ApiContract_of (drop (Suc ?i) cs)"
    using i(1) Suc.prems(2) by (subst take_Suc_update) simp_all
  also have "ApiContract_of (cs ! ?i) # map ApiContract_of (drop (Suc ?i) cs) =
      map ApiContract_of (drop ?i cs)"
    using i(1) by (simp flip: Cons_nth_drop_Suc)
  finally show ?case .
qed simp

text \<open>The loops compute a map over the contracts.\<close>

lemma ContractPub_Marshal_map:
  "ContractPub_Marshal addr cs = zero_ApiEvent
     \<lparr>e_Type := Event_CONTRACT_PUB,
      e_ContractPub := Some \<lparr>ec_Multiaddr = addr, ec_Contracts = map ApiContract_of cs\<rparr>\<rparr>"
  by (simp add: ContractPub_Marshal_def fill_contracts_eq)

lemmas Event_Marshal_defs =
  OfferPub_Marshal_def ContractPub_Marshal_map StorageRequestEvt_Marshal_def
  StorageResponseEvt_Marshal_def RetrievalRequestEvt_Marshal_def RetrievalResponseEvt_Marshal_def
  zero_ApiEvent_def

text \<open>Exactly the sub-message the type announces is present, so a reader can follow the type.\<close>

definition event_well_typed :: "ApiEvent \<Rightarrow> bool" where
  "event_well_typed e \<longleftrightarrow>
     (e_OfferPub e \<noteq> None \<longleftrightarrow> e_Type e = Event_OFFER_PUB) \<and>
     (e_ContractPub e \<noteq> None \<longleftrightarrow> e_Type e = Event_CONTRACT_PUB) \<and>
     (e_StorageRequest e \<noteq> None \<longleftrightarrow> e_Type e = Event_STORAGE_REQUEST) \<and>
     (e_StorageResponse e \<noteq> None \<longleftrightarrow> e_Type e = Event_STORAGE_RESPONSE) \<and>
     (e_RetrievalRequest e \<noteq> None \<longleftrightarrow> e_Type e = Event_RETRIEVAL_REQUEST) \<and>
     (e_RetrievalResponse e \<noteq> None \<longleftrightarrow> e_Type e = Event_RETRIEVAL_RESPONSE) \<and>
     e_Type e \<noteq> Event_UNKNOWN"

lemma Event_Marshal_well_typed: "event_well_typed (Event_Marshal e)"
  by (cases e) (simp_all add: event_well_typed_def Event_Marshal_defs)

text \<open>The API form of a contract publication carries the publisher's address and, through its
  two index loops, exactly one wire contract per contract in order, with the expiry in Unix
  seconds; and every event is marshalled with exactly the sub-message its type announces.\<close>

theorem event_marshal_faithful:
  "event_well_typed (Event_Marshal e) \<and>
   (case e of
      ContractPub addr cs \<Rightarrow>
        (\<exists>p. e_ContractPub (Event_Marshal e) = Some p \<and> ec_Multiaddr p = addr \<and>
           length (ec_Contracts p) = length cs \<and>
           map ac_OwnerId (ec_Contracts p) = map c_OwnerID cs \<and>
           map ac_Cid (ec_Contracts p) = map c_Cid cs \<and>
           map ac_Datatype (ec_Contracts p) = map c_Datatype cs \<and>
           map ac_Expires (ec_Contracts p) = map (Unix \<circ> c_Expires) cs)
    | OfferPub x \<Rightarrow>
        (\<exists>p. e_OfferPub (Event_Marshal e) = Some \<lparr>eo_Offer = Some p\<rparr> \<and>
           ao_Multiaddr p = o_Multiaddr x \<and> ao_Capacity p = o_Capacity x)
    | _ \<Rightarrow> True)"
  using Event_Marshal_well_typed [of e]
  by (cases e) (auto simp: Event_Marshal_defs ApiContract_of_def)

end
