(* ===== verification/Connector.thy ===== *)
theory Connector
  imports Identity Transport Events
begin

text \<open>
  The connector (\<^verbatim>\<open>node/connector.go\<close>): the handler of incoming streams and the sender of requests.
  The stream itself is a parameter: what the full reader hands over of the bytes that were
  written.  Publishing an event is recorded in a list, oldest first.
\<close>

section \<open>Streams\<close>

text \<open>The reader of a stream gets a limit and gives the bytes of one message, or an error.\<close>

type_synonym full_reader = "nat \<Rightarrow> byte list \<Rightarrow> byte list option"

definition read_limit :: nat where
  "read_limit = 1000"

definition receive :: "full_reader \<Rightarrow> byte list \<Rightarrow> PbMessage option" where
  "receive rd s =
     (case rd read_limit s of
        None \<Rightarrow> None
      | Some dAtA \<Rightarrow> (case PbMessage_Unmarshal dAtA zero_PbMessage of Inl _ \<Rightarrow> None | Inr inm \<Rightarrow> Some inm))"

text \<open>The bytes \<^verbatim>\<open>write\<close> puts on the stream; whether the stream takes them is another matter.\<close>

definition write_bytes :: "PbMessage \<Rightarrow> byte list option" where
  "write_bytes out = PbMessage_Marshal out"

section \<open>Events\<close>

fun publishEvent :: "message \<Rightarrow> event list \<Rightarrow> event list" where
  "publishEvent (MStorageRequest m) evs = evs @ [StorageRequestEvt (SQ_Multiaddr m) (SQ_Contract m)]"
| "publishEvent (MStorageResponse m) evs = evs @ [StorageResponseEvt (SP_Multiaddr m) (SP_Done m)]"
| "publishEvent (MRetrievalRequest m) evs = evs @ [RetrievalRequestEvt (RQ_Multiaddr m)]"
| "publishEvent (MRetrievalResponse m) evs = evs @ [RetrievalResponseEvt (RP_IpfsLinks m)]"

section \<open>Incoming streams\<close>

text \<open>
  \<^verbatim>\<open>reader\<close>: the events published, the bytes answered (\<open>None\<close> when the handler returns without an
  answer) and the offer manager afterwards.  The verdict of \<^verbatim>\<open>verify\<close> is only logged.
\<close>

type_synonym reader_result = "panic + event list \<times> byte list option \<times> OfferManager"

definition reader ::
  "node_env \<Rightarrow> ('priv, 'pub, 'z) crypto_scheme \<Rightarrow> full_reader \<Rightarrow> gotime \<Rightarrow> byte list \<Rightarrow> OfferManager \<Rightarrow>
   reader_result"
where
  "reader env cr rd now s om =
     (case receive rd s of
        None \<Rightarrow> Inr ([], None, om)
      | Some inm \<Rightarrow>
          if m_Type inm = Message_STORAGE_REQUEST then
            (case UnmarshalFromProtobuf inm of
               Inl p \<Rightarrow> Inl p
             | Inr (Some (MStorageRequest msg)) \<Rightarrow>
                 (case ProcessStorageRequest env msg om of
                    (resp, om') \<Rightarrow>
                      Inr (publishEvent (MStorageRequest msg) [],
                           write_bytes (MarshalToProtobuf (MStorageResponse resp)), om'))
             | Inr _ \<Rightarrow> Inl TypeAssertionFailed)
          else if m_Type inm = Message_RETRIEVAL_REQUEST then
            (case UnmarshalFromProtobuf inm of
               Inl p \<Rightarrow> Inl p
             | Inr (Some (MRetrievalRequest msg)) \<Rightarrow>
                 (let ver = verify cr (SignedRetrieval msg);
                      evs = (if ver \<noteq> True then publishEvent (MRetrievalRequest msg) []
                             else publishEvent (MRetrievalRequest msg) []);
                      resp = ProcessRetrievalRequest now msg om
                  in Inr (evs, write_bytes (MarshalToProtobuf (MRetrievalResponse resp)), om))
             | Inr _ \<Rightarrow> Inl TypeAssertionFailed)
          else Inr ([], None, om))"

section \<open>Requests to other nodes\<close>

text \<open>
  What the network does for one call of \<^verbatim>\<open>Send\<close>: parsing the address, connecting, opening the
  stream, taking the request, and the bytes the peer answers to it.
\<close>

record network =
  nt_NewMultiaddr :: "gostring \<Rightarrow> bool"
  nt_AddrInfo :: "gostring \<Rightarrow> bool"
  nt_Connect :: "gostring \<Rightarrow> bool"
  nt_NewStream :: "gostring \<Rightarrow> bool"
  nt_write :: "gostring \<Rightarrow> byte list \<Rightarrow> bool"
  nt_answer :: "gostring \<Rightarrow> byte list \<Rightarrow> byte list"
  nt_reader :: full_reader

text \<open>The caller's cells: the slot of the acknowledgement and the response it passed.\<close>

datatype response_cell = StorageCell StorageResponse | RetrievalCell RetrievalResponse

type_synonym send_result = "panic + int \<times> response_cell \<times> event list"

text \<open>The last part of \<^verbatim>\<open>Send\<close>, from the answer on.\<close>

definition unpack ::
  "PbMessage \<Rightarrow> PbMessage \<Rightarrow> response_cell \<Rightarrow> send_result"
where
  "unpack out inm response =
     (if m_Type out = Message_STORAGE_REQUEST \<and> m_Type inm = Message_STORAGE_RESPONSE then
        (case UnmarshalFromProtobuf inm of
           Inl p \<Rightarrow> Inl p
         | Inr (Some (MStorageResponse msg)) \<Rightarrow>
             (case response of
                RetrievalCell _ \<Rightarrow> Inl TypeAssertionFailed
              | StorageCell r \<Rightarrow>
                  Inr (if SP_Done msg = True then 1 else 0,
                       StorageCell (r\<lparr>SP_Multiaddr := SP_Multiaddr msg, SP_Done := SP_Done msg\<rparr>),
                       publishEvent (MStorageResponse msg) []))
         | Inr _ \<Rightarrow> Inl TypeAssertionFailed)
      else if m_Type out = Message_RETRIEVAL_REQUEST \<and> m_Type inm = Message_RETRIEVAL_RESPONSE then
        (case UnmarshalFromProtobuf inm of
           Inl p \<Rightarrow> Inl p
         | Inr (Some (MRetrievalResponse msg)) \<Rightarrow>
             (case response of
                StorageCell _ \<Rightarrow> Inl TypeAssertionFailed
              | RetrievalCell r \<Rightarrow>
                  Inr (if length (RP_IpfsLinks msg) > 0 then 1 else 0,
                       RetrievalCell (r\<lparr>RP_IpfsLinks := RP_IpfsLinks msg\<rparr>),
                       publishEvent (MRetrievalResponse msg) []))
         | Inr _ \<Rightarrow> Inl TypeAssertionFailed)
      else Inr (0, response, []))"

text \<open>
  \<^verbatim>\<open>Send\<close> sets \<open>ack\<close> to 0 on failure and to 1 on success; two of its failures return before the
  assignment.  A marshalling panic (there is none, see \<open>marshal_exact\<close>) would be an index error.
\<close>

definition Send ::
  "network \<Rightarrow> gostring \<Rightarrow> message \<Rightarrow> int \<Rightarrow> response_cell \<Rightarrow> send_result"
where
  "Send nt addr request ack response =
     (let out = (case request of
                   MStorageRequest r \<Rightarrow> Some (MarshalToProtobuf request)
                 | MRetrievalRequest r \<Rightarrow> Some (MarshalToProtobuf request)
                 | _ \<Rightarrow> None)
      in case out of
           None \<Rightarrow> Inr (0, response, [])
         | Some out \<Rightarrow>
             if \<not> nt_NewMultiaddr nt addr then Inr (0, response, [])
             else if \<not> nt_AddrInfo nt addr then Inr (ack, response, [])
             else if \<not> nt_Connect nt addr then Inr (ack, response, [])
             else if \<not> nt_NewStream nt addr then Inr (0, response, [])
             else (case write_bytes out of
                     None \<Rightarrow> Inl IndexOutOfRange
                   | Some bs \<Rightarrow>
                       if \<not> nt_write nt addr bs then Inr (0, response, [])
                       else (case receive (nt_reader nt) (nt_answer nt addr bs) of
                               None \<Rightarrow> Inr (0, response, [])
                             | Some inm \<Rightarrow> unpack out inm response)))"

section \<open>Properties of the handler\<close>

lemma write_bytes_eq: "write_bytes out = Some (wire_PbMessage out)"
  by (simp add: write_bytes_def PbMessage_Marshal_def PbMessage_MarshalToSizedBuffer_def
      marshal_with_writes [OF writes_PbMessage] length_wire_PbMessage)

lemma MarshalToProtobuf_known: "PbMessage_known (MarshalToProtobuf msg)"
  by (cases msg) (simp_all add: Marshal_defs zero_PbMessage_def PbMessage_known_def
      MsgStorageRequest_known_def MsgStorageResponse_known_def MsgRetrievalRequest_known_def
      MsgRetrievalResponse_known_def PbContract_known_def)

text \<open>A stream on which messages up to the limit arrive whole.\<close>

definition whole_up_to_limit :: "full_reader \<Rightarrow> bool" where
  "whole_up_to_limit rd \<longleftrightarrow> (\<forall>n s. length s \<le> n \<longrightarrow> rd n s = Some s)"

lemma receive_marshalled:
  assumes "whole_up_to_limit rd" and "PbMessage_Size (MarshalToProtobuf msg) \<le> read_limit"
  shows "receive rd (wire_PbMessage (MarshalToProtobuf msg)) = Some (MarshalToProtobuf msg)"
proof -
  have "length (wire_PbMessage (MarshalToProtobuf msg)) < 2 ^ 63"
    using assms(2) by (simp add: length_wire_PbMessage read_limit_def)
  from PbMessage_roundtrip [OF MarshalToProtobuf_known this] assms show ?thesis
    by (simp add: receive_def whole_up_to_limit_def length_wire_PbMessage)
qed

lemma Marshal_Type:
  "m_Type (StorageRequest_Marshal a) = 1" "m_Type (StorageResponse_Marshal b) = 2"
  "m_Type (RetrievalRequest_Marshal c) = 3" "m_Type (RetrievalResponse_Marshal d) = 4"
  by (simp_all add: Marshal_defs Message_Type_defs)

text \<open>What a handler does with a request another node marshalled: a storage request is processed
  with its expiry in whole seconds, announced as an event and answered with its response; a
  retrieval request is answered from the contracts at hand and announced, whatever its signature
  is; the handler never panics on a request some node marshalled.\<close>

theorem reader_serves:
  assumes "whole_up_to_limit rd" and "PbMessage_Size (MarshalToProtobuf msg) \<le> read_limit"
  shows "reader env cr rd now (wire_PbMessage (MarshalToProtobuf msg)) om =
    (case trunc_message msg of
       MStorageRequest r \<Rightarrow>
         (case ProcessStorageRequest env r om of
            (resp, om') \<Rightarrow> Inr ([StorageRequestEvt (SQ_Multiaddr r) (SQ_Contract r)],
              Some (wire_PbMessage (MarshalToProtobuf (MStorageResponse resp))), om'))
     | MRetrievalRequest r \<Rightarrow> Inr ([RetrievalRequestEvt (RQ_Multiaddr r)],
         Some (wire_PbMessage (MarshalToProtobuf
           (MRetrievalResponse (ProcessRetrievalRequest now r om)))), om)
     | _ \<Rightarrow> Inr ([], None, om))"
  using receive_marshalled [OF assms] Unmarshal_MarshalToProtobuf [of msg]
  by (cases msg) (simp_all add: reader_def Marshal_Type Message_Type_defs write_bytes_eq)

text \<open>The exact inputs that crash a handler: bytes that decode into a storage or retrieval request
  whose announced sub-message (or contract) is missing, and no others.\<close>

theorem reader_panics_iff:
  "((\<exists>p. reader env cr rd now s om = Inl p) =
    (\<exists>inm. receive rd s = Some inm \<and> (m_Type inm = 1 \<or> m_Type inm = 3) \<and> \<not> announced_present inm))"
  by (auto simp: reader_def UnmarshalFromProtobuf_def announced_present_def Message_Type_defs Let_def
      split: option.splits prod.splits)

section \<open>Properties of \<^verbatim>\<open>Send\<close>\<close>

text \<open>\<^verbatim>\<open>Send\<close> leaves the slot at 0 or 1 in every case but two: when the peer's address has no peer
  id and when the connection fails, it returns with the slot as the caller set it.  A 1 means the
  response cell now holds an acceptance (or at least one link), and one event was published.\<close>

theorem send_ack:
  "case Send nt addr request ack response of
     Inl p \<Rightarrow> True
   | Inr (ack', response', evs) \<Rightarrow>
       (ack' = 0 \<or>
        ack' = 1 \<and> length evs = 1 \<and>
          (case response' of StorageCell r \<Rightarrow> SP_Done r | RetrievalCell r \<Rightarrow> RP_IpfsLinks r \<noteq> []) \<or>
        ack' = ack \<and> response' = response \<and> evs = [] \<and>
          nt_NewMultiaddr nt addr \<and> \<not> (nt_AddrInfo nt addr \<and> nt_Connect nt addr))"
  by (auto simp: Send_def unpack_def Let_def write_bytes_eq
      split: message.splits option.splits sum.splits response_cell.splits)

text \<open>A network whose peer at \<open>addr\<close> is a node with the given state.\<close>

definition reaches ::
  "network \<Rightarrow> gostring \<Rightarrow> (byte list \<Rightarrow> reader_result) \<Rightarrow> bool"
where
  "reaches nt addr peer \<longleftrightarrow>
     nt_NewMultiaddr nt addr \<and> nt_AddrInfo nt addr \<and> nt_Connect nt addr \<and> nt_NewStream nt addr \<and>
     whole_up_to_limit (nt_reader nt) \<and>
     (\<forall>bs. nt_write nt addr bs \<and>
        (case peer bs of Inr (_, Some out, _) \<Rightarrow> nt_answer nt addr bs = out | _ \<Rightarrow> True))"

lemma storage_request_served:
  assumes reach: "reaches nt addr (\<lambda>bs. reader env cr (nt_reader nt) now bs om)"
    and fits: "PbMessage_Size (MarshalToProtobuf (MStorageRequest r)) \<le> read_limit"
      "\<forall>d. PbMessage_Size (MarshalToProtobuf (MStorageResponse
         \<lparr>SP_Multiaddr = n_Multiaddr env, SP_Done = d\<rparr>)) \<le> read_limit"
    and arrived: "trunc_message (MStorageRequest r) = MStorageRequest r'"
  shows "\<exists>d om'. ProcessStorageRequest env r' om =
      (\<lparr>SP_Multiaddr = n_Multiaddr env, SP_Done = d\<rparr>, om') \<and>
    Send nt addr (MStorageRequest r) ack (StorageCell cell) =
      Inr (if d then 1 else 0, StorageCell \<lparr>SP_Multiaddr = n_Multiaddr env, SP_Done = d\<rparr>,
           [StorageResponseEvt (n_Multiaddr env) d])"
proof -
  obtain resp om' where proc: "ProcessStorageRequest env r' om = (resp, om')" by fastforce
  obtain d where resp: "resp = \<lparr>SP_Multiaddr = n_Multiaddr env, SP_Done = d\<rparr>"
    using proc by (auto simp: ProcessStorageRequest_def Let_def split: if_splits prod.splits bool.splits)
  have rd: "whole_up_to_limit (nt_reader nt)" using reach by (simp add: reaches_def)
  let ?req = "wire_PbMessage (MarshalToProtobuf (MStorageRequest r))"
  let ?resp = "wire_PbMessage (MarshalToProtobuf (MStorageResponse resp))"
  have "reader env cr (nt_reader nt) now ?req om =
      Inr ([StorageRequestEvt (SQ_Multiaddr r') (SQ_Contract r')], Some ?resp, om')"
    using receive_marshalled [OF rd fits(1)] Unmarshal_MarshalToProtobuf [of "MStorageRequest r"]
    by (simp add: reader_def Marshal_Type Message_Type_defs write_bytes_eq arrived proc
        del: trunc_message.simps)
  with reach have "nt_answer nt addr ?req = ?resp" by (auto simp: reaches_def dest: spec [of _ ?req])
  moreover have "receive (nt_reader nt) ?resp = Some (MarshalToProtobuf (MStorageResponse resp))"
    using receive_marshalled [OF rd] fits(2) resp by blast
  ultimately have "Send nt addr (MStorageRequest r) ack (StorageCell cell) =
      unpack (MarshalToProtobuf (MStorageRequest r)) (MarshalToProtobuf (MStorageResponse resp))
        (StorageCell cell)"
    using reach by (simp add: Send_def reaches_def write_bytes_eq)
  also have "\<dots> = Inr (if d then 1 else 0, StorageCell \<lparr>SP_Multiaddr = n_Multiaddr env, SP_Done = d\<rparr>,
      [StorageResponseEvt (n_Multiaddr env) d])"
    using Unmarshal_MarshalToProtobuf [of "MStorageResponse resp"]
    by (simp add: unpack_def Marshal_Type Message_Type_defs resp)
  finally show ?thesis using proc resp by blast
qed

text \<open>C14: A storage request between two nodes: if the peer is reachable and the messages fit the
  limit, the sender's slot becomes 1 exactly when the peer's offer manager accepted the contract
  (with its expiry in whole seconds), and the response names the peer.\<close>

theorem storage_request_end_to_end:
  assumes reach: "reaches nt addr (\<lambda>bs. reader env cr (nt_reader nt) now bs om)"
    and fits: "PbMessage_Size (MarshalToProtobuf (MStorageRequest r)) \<le> read_limit"
      "\<forall>d. PbMessage_Size (MarshalToProtobuf (MStorageResponse
         \<lparr>SP_Multiaddr = n_Multiaddr env, SP_Done = d\<rparr>)) \<le> read_limit"
    and arrived: "trunc_message (MStorageRequest r) = MStorageRequest r'"
  shows "\<exists>d om'. ProcessStorageRequest env r' om =
      (\<lparr>SP_Multiaddr = n_Multiaddr env, SP_Done = d\<rparr>, om') \<and>
    Send nt addr (MStorageRequest r) ack (StorageCell cell) =
      Inr (if d then 1 else 0, StorageCell \<lparr>SP_Multiaddr = n_Multiaddr env, SP_Done = d\<rparr>,
           [StorageResponseEvt (n_Multiaddr env) d])"
  by (rule storage_request_served [OF assms])

section \<open>Witnesses\<close>

definition demo_reader :: full_reader where
  "demo_reader n s = (if length s \<le> n then Some s else None)"

text \<open>A direct line to one peer.\<close>

definition demo_network :: "(byte list \<Rightarrow> reader_result) \<Rightarrow> network" where
  "demo_network peer = \<lparr>nt_NewMultiaddr = (\<lambda>_. True), nt_AddrInfo = (\<lambda>_. True),
     nt_Connect = (\<lambda>_. True), nt_NewStream = (\<lambda>_. True), nt_write = (\<lambda>_ _. True),
     nt_answer = (\<lambda>_ bs. case peer bs of Inr (_, Some out, _) \<Rightarrow> out | _ \<Rightarrow> []),
     nt_reader = demo_reader\<rparr>"

lemma whole_demo_reader: "whole_up_to_limit demo_reader"
  by (simp add: whole_up_to_limit_def demo_reader_def)

lemma reaches_demo: "reaches (demo_network peer) addr peer"
  by (auto simp: reaches_def demo_network_def whole_demo_reader split: sum.splits option.splits)

lemma reader_demo_network: "nt_reader (demo_network peer) = demo_reader"
  by (simp add: demo_network_def)

lemmas wire_sizes =
  PbMessage_Size_def MsgStorageRequest_Size_def MsgStorageResponse_Size_def
  MsgRetrievalRequest_Size_def MsgRetrievalResponse_Size_def PbContract_Size_def size_defs
  Marshal_defs zero_PbMessage_def Message_Type_defs

definition demo_request :: StorageRequest where
  "demo_request = \<lparr>SQ_Multiaddr = ''a'', SQ_Contract = demo_contract ''a'' 5 200\<rparr>"

lemma demo_request_fits: "PbMessage_Size (MarshalToProtobuf (MStorageRequest demo_request)) \<le> read_limit"
  by (simp add: wire_sizes demo_request_def demo_contract_def Unix_time_Unix sovMsg_small sovMsg_step
      word_less_nat_alt word_le_nat_alt read_limit_def drop_bit_eq_div)

theorem reader_serves_witness:
  "reader demo_env demo_crypto demo_reader (time_Unix 100)
     (wire_PbMessage (MarshalToProtobuf (MRetrievalResponse \<lparr>RP_IpfsLinks = [''x'']\<rparr>))) (demo_om [] 10) =
   Inr ([], None, demo_om [] 10)"
proof -
  have "PbMessage_Size (MarshalToProtobuf (MRetrievalResponse \<lparr>RP_IpfsLinks = [''x'']\<rparr>)) \<le> read_limit"
    by (simp add: wire_sizes sovMsg_small word_less_nat_alt read_limit_def)
  from reader_serves [OF whole_demo_reader this] show ?thesis by simp
qed

theorem storage_request_end_to_end_witness:
  "\<exists>d nt. Send nt ''b'' (MStorageRequest demo_request) 2
      (StorageCell \<lparr>SP_Multiaddr = [], SP_Done = False\<rparr>) =
    Inr (if d then 1 else 0, StorageCell \<lparr>SP_Multiaddr = n_Multiaddr demo_env, SP_Done = d\<rparr>,
      [StorageResponseEvt (n_Multiaddr demo_env) d])"
proof -
  let ?peer = "\<lambda>bs. reader demo_env demo_crypto demo_reader (time_Unix 100) bs (demo_om [] 10)"
  have "reaches (demo_network ?peer) ''b''
      (\<lambda>bs. reader demo_env demo_crypto (nt_reader (demo_network ?peer)) (time_Unix 100) bs (demo_om [] 10))"
    unfolding reader_demo_network by (rule reaches_demo)
  moreover have "\<forall>d. PbMessage_Size (MarshalToProtobuf (MStorageResponse
      \<lparr>SP_Multiaddr = n_Multiaddr demo_env, SP_Done = d\<rparr>)) \<le> read_limit"
    by (simp add: wire_sizes demo_env_def sovMsg_small word_less_nat_alt read_limit_def)
  moreover have "trunc_message (MStorageRequest demo_request) = MStorageRequest demo_request"
    by (simp add: demo_request_def demo_contract_def trunc_time_def time_Unix_def)
  ultimately show ?thesis
    using storage_request_end_to_end [OF _ demo_request_fits] by blast
qed

end
