(* ===== verification/OfferConcurrency.thy ===== *)
theory OfferConcurrency
  imports OfferManager
begin

text \<open>
  The offer manager under concurrency.  Every incoming stream is handled by a goroutine of its
  own, and the trimmer is one more.  The mutex covers only part of each: the admission test of a
  storage request and the scan of the trimmer run before the lock is taken.  A step is one piece
  of code between two such points; which goroutine moves is left open.
\<close>

datatype phase = Idle | Admitted Contract | Hosted Contract | Finished bool

record offer_sys =
  os_om :: OfferManager
  os_phase :: "nat \<Rightarrow> phase"              \<comment> \<open>the storage goroutines\<close>
  os_trim :: "nat list option"            \<comment> \<open>indices the trimmer has collected\<close>
  os_crashed :: bool                      \<comment> \<open>a goroutine panicked\<close>

definition init_sys :: "OfferManager \<Rightarrow> offer_sys" where
  "init_sys om = \<lparr>os_om = om, os_phase = (\<lambda>_. Idle), os_trim = None, os_crashed = False\<rparr>"

inductive offer_step :: "node_env \<Rightarrow> offer_sys \<Rightarrow> offer_sys \<Rightarrow> bool" for env where
  admit: "os_phase s i = Idle \<Longrightarrow> admits (os_om s) c \<Longrightarrow>
    offer_step env s (s\<lparr>os_phase := (os_phase s)(i := Admitted c)\<rparr>)"
| refuse: "os_phase s i = Idle \<Longrightarrow> \<not> admits (os_om s) c \<Longrightarrow>
    offer_step env s (s\<lparr>os_phase := (os_phase s)(i := Finished False)\<rparr>)"
| host: "os_phase s i = Admitted c \<Longrightarrow> psr_host env c (os_om s) = (True, om') \<Longrightarrow>
    offer_step env s (s\<lparr>os_om := om', os_phase := (os_phase s)(i := Hosted c)\<rparr>)"
| host_fail: "os_phase s i = Admitted c \<Longrightarrow> psr_host env c (os_om s) = (False, om') \<Longrightarrow>
    offer_step env s (s\<lparr>os_om := om', os_phase := (os_phase s)(i := Finished False)\<rparr>)"
| commit: "os_phase s i = Hosted c \<Longrightarrow> psr_commit env c (os_om s) = (d, om') \<Longrightarrow>
    offer_step env s (s\<lparr>os_om := om', os_phase := (os_phase s)(i := Finished d)\<rparr>)"
| scan: "os_trim s = None \<Longrightarrow>
    offer_step env s (s\<lparr>os_trim := Some (expired_indices clock (om_contracts (os_om s)))\<rparr>)"
| trim: "os_trim s = Some ixs \<Longrightarrow> trim_apply env ixs (os_om s) = Inr om' \<Longrightarrow>
    offer_step env s (s\<lparr>os_om := om', os_trim := None\<rparr>)"
| trim_panic: "os_trim s = Some ixs \<Longrightarrow> trim_apply env ixs (os_om s) = Inl p \<Longrightarrow>
    offer_step env s (s\<lparr>os_crashed := True\<rparr>)"
| set_offer: "offer_step env s (s\<lparr>os_om := snd (SetOffer env now cap (os_om s))\<rparr>)"
| get_offer: "offer_step env s (s\<lparr>os_om := snd (GetOffer env now (os_om s))\<rparr>)"

abbreviation offer_reachable :: "node_env \<Rightarrow> OfferManager \<Rightarrow> offer_sys \<Rightarrow> bool" where
  "offer_reachable env om \<equiv> reachable ((=) (init_sys om)) (offer_step env)"

section \<open>The collected indices stay valid\<close>

text \<open>Contracts are only appended while the trimmer is between its scan and its lock.\<close>

definition scan_valid :: "nat list \<Rightarrow> Contract list \<Rightarrow> bool" where
  "scan_valid ixs cs \<longleftrightarrow> (\<exists>fs. length fs \<le> length cs \<and> ixs = idx 0 fs)"

lemma idx_append: "idx k (fs @ gs) = idx k fs @ idx (k + length fs) gs"
  by (induction fs arbitrary: k) auto

lemma idx_replicate_False [simp]: "idx k (replicate n False) = []"
  by (simp add: idx_Nil_iff)

lemma scan_valid_append: "scan_valid ixs cs \<Longrightarrow> scan_valid ixs (cs @ ds)"
  unfolding scan_valid_def by (metis length_append trans_le_add1)

lemma scan_valid_scan: "scan_valid (expired_indices clock cs) cs"
  by (auto simp: scan_valid_def expired_indices_idx intro: exI [of _ "expiry_flags clock cs"])

lemma trim_apply_valid:
  assumes "scan_valid ixs (om_contracts om)"
  shows "\<exists>om'. trim_apply env ixs om = Inr om'"
proof -
  obtain fs where fs: "length fs \<le> length (om_contracts om)" "ixs = idx 0 fs"
    using assms by (auto simp: scan_valid_def)
  let ?fs = "fs @ replicate (length (om_contracts om) - length fs) False"
  have "length ?fs = length (om_contracts om)" using fs by simp
  from trim_apply_flags [OF this, of env] fs show ?thesis by (auto simp: idx_append)
qed

lemma psr_host_contracts: "psr_host env c om = (ok, om') \<Longrightarrow> om_contracts om' = om_contracts om"
  by (rule psr_host_frame)

lemma psr_host_ok:
  "fst (HostContent (n_ipfs env) (c_Cid c) (om_hist om)) \<Longrightarrow> \<exists>om'. psr_host env c om = (True, om')"
  by (cases "HostContent (n_ipfs env) (c_Cid c) (om_hist om)") (simp add: psr_host_def)

lemma SetOffer_contracts [simp]: "om_contracts (snd (SetOffer env now cap om)) = om_contracts om"
  by (simp add: SetOffer_def)

lemma GetOffer_contracts [simp]: "om_contracts (snd (GetOffer env now om)) = om_contracts om"
  by (simp add: GetOffer_def updateOffer_def Let_def split: option.splits)

definition trim_inv :: "offer_sys \<Rightarrow> bool" where
  "trim_inv s \<longleftrightarrow> \<not> os_crashed s \<and>
     (\<forall>ixs. os_trim s = Some ixs \<longrightarrow> scan_valid ixs (om_contracts (os_om s)))"

lemma offer_step_trim_inv: "offer_step env s t \<Longrightarrow> trim_inv s \<Longrightarrow> trim_inv t"
proof (induction rule: offer_step.induct)
  case (commit s i c d om')
  then show ?case
    using psr_commit_frame(1) [OF commit(2)] by (auto simp: trim_inv_def intro: scan_valid_append)
next
  case (trim_panic s ixs p)
  then have "scan_valid ixs (om_contracts (os_om s))" by (simp add: trim_inv_def)
  from trim_apply_valid [OF this, of env] trim_panic show ?case by auto
qed (auto simp: trim_inv_def scan_valid_scan dest: psr_host_contracts)

interpretation trimmer: invariant_system "(=) (init_sys om)" "offer_step env" trim_inv for env om
proof unfold_locales
  show "(=) (init_sys om) s \<Longrightarrow> trim_inv s" for s
    by (auto simp: trim_inv_def init_sys_def)
qed (rule offer_step_trim_inv)

text \<open>However storage requests, offer changes and advertisements interleave with the trimmer,
  whose scan runs before it takes the lock, the trimmer never panics: the indices it collected
  fit the slice it finds under the lock.\<close>

theorem trimmer_never_panics:
  "offer_reachable env om s \<Longrightarrow> \<not> os_crashed s"
  by (drule trimmer.invariant) (simp add: trim_inv_def)

section \<open>The unlocked admission test\<close>

lemma subtract_twice_wraps:
  fixes k a b :: uint32
  assumes "a < k" and "b < k" and "unat k < unat a + unat b"
  shows "unat (k - a - b) = unat k + 2 ^ 32 - (unat a + unat b)"
proof -
  have "unat (k - a) = unat k - unat a" using assms(1) by (simp add: unat_sub order_less_imp_le)
  moreover from this have "k - a < b" using assms(1,3) unfolding word_less_nat_alt by linarith
  ultimately show ?thesis
    using assms unat_less_2p [of b] by (simp add: unat_sub_if' word_less_nat_alt word_le_nat_alt)
qed

text \<open>C4: Two storage requests that are both admitted before either commits take both their sizes:
  although each one fits the offer, their sum may exceed it, and the advertised capacity is then
  the difference plus 2 to the 32.\<close>

theorem concurrent_overcommit:
  assumes offer: "om_isOfferSet om" and hist: "\<And>h. fst (HostContent (n_ipfs env) (c_Cid a) h)"
      "\<And>h. fst (HostContent (n_ipfs env) (c_Cid b) h)"
    and fit: "c_Size a < o_Capacity (om_offer om)" "c_Size b < o_Capacity (om_offer om)"
    and sum: "unat (o_Capacity (om_offer om)) < unat (c_Size a) + unat (c_Size b)"
    and ok: "\<forall>x\<in>set (om_contracts om @ [a, b]). storable x"
  shows "\<exists>s. offer_reachable env om s \<and> os_phase s 0 = Finished True \<and> os_phase s 1 = Finished True \<and>
    unat (o_Capacity (om_offer (os_om s))) =
      unat (o_Capacity (om_offer om)) + 2 ^ 32 - (unat (c_Size a) + unat (c_Size b))"
proof -
  have adm: "admits om a" "admits om b" using offer fit by (simp_all add: admits_def)
  obtain om1 where om1: "psr_host env a om = (True, om1)"
    using psr_host_ok [OF hist(1)] by blast
  obtain om2 where om2: "psr_host env b om1 = (True, om2)"
    using psr_host_ok [OF hist(2)] by blast
  note f1 = psr_host_frame [OF om1] and f2 = psr_host_frame [OF om2]
  obtain d om3 where om3: "psr_commit env a om2 = (d, om3)" by fastforce
  note f3 = psr_commit_frame [OF om3]
  have d: "d" using f3(3) ok f1 f2 by auto
  obtain e om4 where om4: "psr_commit env b om3 = (e, om4)" by fastforce
  note f4 = psr_commit_frame [OF om4]
  have e: "e" using f4(3) f3(1) ok f1 f2 by auto
  define s1 where "s1 = (init_sys om)\<lparr>os_phase := (os_phase (init_sys om))(0 := Admitted a)\<rparr>"
  define s2 where "s2 = s1\<lparr>os_phase := (os_phase s1)(1 := Admitted b)\<rparr>"
  define s3 where "s3 = s2\<lparr>os_om := om1, os_phase := (os_phase s2)(0 := Hosted a)\<rparr>"
  define s4 where "s4 = s3\<lparr>os_om := om2, os_phase := (os_phase s3)(1 := Hosted b)\<rparr>"
  define s5 where "s5 = s4\<lparr>os_om := om3, os_phase := (os_phase s4)(0 := Finished d)\<rparr>"
  define s6 where "s6 = s5\<lparr>os_om := om4, os_phase := (os_phase s5)(1 := Finished e)\<rparr>"
  note defs = init_sys_def s1_def s2_def s3_def s4_def s5_def s6_def
  have "offer_step env (init_sys om) s1"
    unfolding s1_def by (rule offer_step.admit) (simp_all add: init_sys_def adm)
  moreover have "offer_step env s1 s2"
    unfolding s2_def by (rule offer_step.admit) (simp_all add: defs adm)
  moreover have "offer_step env s2 s3"
    unfolding s3_def by (rule offer_step.host [where c = a]) (simp_all add: defs om1)
  moreover have "offer_step env s3 s4"
    unfolding s4_def by (rule offer_step.host [where c = b]) (simp_all add: defs om2)
  moreover have "offer_step env s4 s5"
    unfolding s5_def by (rule offer_step.commit [where c = a]) (use om3 in \<open>simp_all add: defs\<close>)
  moreover have "offer_step env s5 s6"
    unfolding s6_def by (rule offer_step.commit [where c = b]) (use om4 in \<open>simp_all add: defs\<close>)
  ultimately have reach: "offer_reachable env om s6"
    by (rule reach_init [where init = "(=) (init_sys om)", OF refl, THEN reach_step, THEN reach_step, THEN reach_step,
          THEN reach_step, THEN reach_step, THEN reach_step])
  have cap: "o_Capacity (om_offer om4) = o_Capacity (om_offer om) - c_Size a - c_Size b"
    using f4(4) f3(4) f2(3) f1(3) d e by simp
  note subtract_twice_wraps [OF fit sum]
  with reach cap d e show ?thesis by (intro exI [of _ s6]) (simp add: defs)
qed

section \<open>Witnesses\<close>

lemma demo_hosts: "fst (HostContent (n_ipfs demo_env) cid h)"
  by (simp add: HostContent_def startIpfsDaemon_def executeCommand_def ipfsPinAll_def ipfsPin_def
      demo_env_def)

lemma storable_demo: "storable (demo_contract cid sz 200)"
  by (simp add: storable_def demo_contract_def Year_def Date_def abs_sec_def year_yday_def Let_def
      split: prod.splits)

theorem trimmer_never_panics_witness:
  "\<not> os_crashed ((init_sys (demo_om [demo_contract ''a'' 5 50] 10))
     \<lparr>os_trim := Some (expired_indices (\<lambda>_. time_Unix 100) [demo_contract ''a'' 5 50])\<rparr>)"
proof (rule trimmer_never_panics)
  let ?om = "demo_om [demo_contract ''a'' 5 50] 10"
  have "offer_step demo_env (init_sys ?om) ((init_sys ?om)
      \<lparr>os_trim := Some (expired_indices (\<lambda>_. time_Unix 100) (om_contracts (os_om (init_sys ?om))))\<rparr>)"
    by (rule offer_step.scan) (simp add: init_sys_def)
  with reach_init [of "(=) (init_sys ?om)", OF refl]
  show "offer_reachable demo_env ?om ((init_sys ?om)
      \<lparr>os_trim := Some (expired_indices (\<lambda>_. time_Unix 100) [demo_contract ''a'' 5 50])\<rparr>)"
    by (auto simp: init_sys_def demo_om_def intro: reach_step)
qed

theorem concurrent_overcommit_witness:
  "\<exists>s. offer_reachable demo_env (demo_om [] 10) s \<and> unat (o_Capacity (om_offer (os_om s))) = 4294967293"
proof -
  have "\<exists>s. offer_reachable demo_env (demo_om [] 10) s \<and> os_phase s 0 = Finished True \<and>
    os_phase s 1 = Finished True \<and>
    unat (o_Capacity (om_offer (os_om s))) = unat (o_Capacity (om_offer (demo_om [] 10))) + 2 ^ 32
       - (unat (c_Size (demo_contract ''a'' 6 200)) + unat (c_Size (demo_contract ''b'' 7 200)))"
    by (rule concurrent_overcommit)
      (simp_all add: demo_om_def demo_hosts storable_demo, simp_all add: demo_contract_def)
  then show ?thesis by (auto simp: demo_om_def demo_contract_def)
qed

end
