(* ===== verification/StreamHandlers.thy ===== *)
theory StreamHandlers
  imports Connector OfferConcurrency
begin

text \<open>
  The node as a server (\<^verbatim>\<open>NewConnector\<close> and \<^verbatim>\<open>reader\<close> of \<^verbatim>\<open>node/connector.go\<close> on top of the offer manager):
  every incoming stream runs \<^verbatim>\<open>reader\<close> in a goroutine of its own, beside the trimmer and the calls that
  set and advertise the offer.  A step is the code between two points at which a goroutine waits
  for another: reading the stream, handing an event to \<^verbatim>\<open>joinEvents\<close>, running a command, the lock,
  writing the answer.
\<close>

section \<open>State\<close>

text \<open>The position of one handler.  A handler that ended has answered with a message or with nothing.\<close>

datatype handler = HNew | HAnnounce message | HServe message | HHost Contract | HCommit Contract |
  HAnswer message | HEnd "message option"

datatype crash = ByStream nat | ByTrimmer

record server =
  sv_om :: OfferManager
  sv_handlers :: "nat \<Rightarrow> handler"          \<comment> \<open>by number of the stream\<close>
  sv_trim :: "nat list option"
  sv_events :: "event list"                \<comment> \<open>what \<^verbatim>\<open>joinEvents\<close> took, oldest first\<close>
  sv_crash :: "crash option"
  sv_promised :: uint32                    \<comment> \<open>history: the capacity last set\<close>
  sv_taken :: "Contract list"              \<comment> \<open>history: contracts accepted since\<close>
  sv_returned :: "Contract list"           \<comment> \<open>history: contracts trimmed since\<close>

definition init_server :: "OfferManager \<Rightarrow> server" where
  "init_server om = \<lparr>sv_om = om, sv_handlers = (\<lambda>_. HNew), sv_trim = None, sv_events = [],
     sv_crash = None, sv_promised = o_Capacity (om_offer om), sv_taken = [], sv_returned = []\<rparr>"

section \<open>Steps\<close>

text \<open>Up to the event: what the bytes of the stream make of a new handler.\<close>

definition handler_receive :: "full_reader \<Rightarrow> byte list \<Rightarrow> panic + handler" where
  "handler_receive rd bs =
     (case receive rd bs of
        None \<Rightarrow> Inr (HEnd None)
      | Some inm \<Rightarrow>
          if m_Type inm = Message_STORAGE_REQUEST then
            (case UnmarshalFromProtobuf inm of
               Inl p \<Rightarrow> Inl p
             | Inr (Some (MStorageRequest msg)) \<Rightarrow> Inr (HAnnounce (MStorageRequest msg))
             | Inr _ \<Rightarrow> Inl TypeAssertionFailed)
          else if m_Type inm = Message_RETRIEVAL_REQUEST then
            (case UnmarshalFromProtobuf inm of
               Inl p \<Rightarrow> Inl p
             | Inr (Some (MRetrievalRequest msg)) \<Rightarrow> Inr (HAnnounce (MRetrievalRequest msg))
             | Inr _ \<Rightarrow> Inl TypeAssertionFailed)
          else Inr (HEnd None))"

text \<open>The request's address and verdict as a response.\<close>

definition verdict :: "node_env \<Rightarrow> bool \<Rightarrow> message" where
  "verdict env d = MStorageResponse \<lparr>SP_Multiaddr = n_Multiaddr env, SP_Done = d\<rparr>"

abbreviation move :: "nat \<Rightarrow> handler \<Rightarrow> server \<Rightarrow> server" where
  "move i h s \<equiv> s\<lparr>sv_handlers := (sv_handlers s)(i := h)\<rparr>"

inductive server_step ::
  "node_env \<Rightarrow> full_reader \<Rightarrow> (nat \<Rightarrow> byte list) \<Rightarrow> server \<Rightarrow> server \<Rightarrow> bool"
  for env rd streams where
  receives: "sv_crash s = None \<Longrightarrow> sv_handlers s i = HNew \<Longrightarrow> handler_receive rd (streams i) = Inr h \<Longrightarrow>
    server_step env rd streams s (move i h s)"
| crashes: "sv_crash s = None \<Longrightarrow> sv_handlers s i = HNew \<Longrightarrow> handler_receive rd (streams i) = Inl p \<Longrightarrow>
    server_step env rd streams s (s\<lparr>sv_crash := Some (ByStream i)\<rparr>)"
| announces: "sv_crash s = None \<Longrightarrow> sv_handlers s i = HAnnounce m \<Longrightarrow>
    server_step env rd streams s (move i (HServe m) (s\<lparr>sv_events := publishEvent m (sv_events s)\<rparr>))"
| admits: "sv_crash s = None \<Longrightarrow> sv_handlers s i = HServe (MStorageRequest r) \<Longrightarrow>
    admits (sv_om s) (SQ_Contract r) \<Longrightarrow>
    server_step env rd streams s (move i (HHost (SQ_Contract r)) s)"
| refuses: "sv_crash s = None \<Longrightarrow> sv_handlers s i = HServe (MStorageRequest r) \<Longrightarrow>
    \<not> admits (sv_om s) (SQ_Contract r) \<Longrightarrow>
    server_step env rd streams s (move i (HAnswer (verdict env False)) s)"
| hosts: "sv_crash s = None \<Longrightarrow> sv_handlers s i = HHost c \<Longrightarrow> psr_host env c (sv_om s) = (True, om') \<Longrightarrow>
    server_step env rd streams s (move i (HCommit c) (s\<lparr>sv_om := om'\<rparr>))"
| fails_to_host: "sv_crash s = None \<Longrightarrow> sv_handlers s i = HHost c \<Longrightarrow>
    psr_host env c (sv_om s) = (False, om') \<Longrightarrow>
    server_step env rd streams s (move i (HAnswer (verdict env False)) (s\<lparr>sv_om := om'\<rparr>))"
| commits: "sv_crash s = None \<Longrightarrow> sv_handlers s i = HCommit c \<Longrightarrow> psr_commit env c (sv_om s) = (d, om') \<Longrightarrow>
    server_step env rd streams s (move i (HAnswer (verdict env d)) (s\<lparr>sv_om := om',
      sv_taken := (if d then sv_taken s @ [c] else sv_taken s)\<rparr>))"
| retrieves: "sv_crash s = None \<Longrightarrow> sv_handlers s i = HServe (MRetrievalRequest r) \<Longrightarrow>
    server_step env rd streams s
      (move i (HAnswer (MRetrievalResponse (ProcessRetrievalRequest now r (sv_om s)))) s)"
| answers: "sv_crash s = None \<Longrightarrow> sv_handlers s i = HAnswer m \<Longrightarrow>
    server_step env rd streams s (move i (HEnd (Some m)) s)"
| scans: "sv_crash s = None \<Longrightarrow> sv_trim s = None \<Longrightarrow>
    server_step env rd streams s
      (s\<lparr>sv_trim := Some (expired_indices clock (om_contracts (sv_om s)))\<rparr>)"
| trims: "sv_crash s = None \<Longrightarrow> sv_trim s = Some ixs \<Longrightarrow> trim_apply env ixs (sv_om s) = Inr om' \<Longrightarrow>
    server_step env rd streams s (s\<lparr>sv_om := om', sv_trim := None,
      sv_returned := sv_returned s @ map ((!) (om_contracts (sv_om s))) ixs\<rparr>)"
| trim_crashes: "sv_crash s = None \<Longrightarrow> sv_trim s = Some ixs \<Longrightarrow> trim_apply env ixs (sv_om s) = Inl p \<Longrightarrow>
    server_step env rd streams s (s\<lparr>sv_crash := Some ByTrimmer\<rparr>)"
| sets_offer: "sv_crash s = None \<Longrightarrow>
    server_step env rd streams s (s\<lparr>sv_om := snd (SetOffer env now cap (sv_om s)),
      sv_promised := cap, sv_taken := [], sv_returned := []\<rparr>)"
| gets_offer: "sv_crash s = None \<Longrightarrow>
    server_step env rd streams s (s\<lparr>sv_om := snd (GetOffer env now (sv_om s))\<rparr>)"

abbreviation server_reachable ::
  "node_env \<Rightarrow> full_reader \<Rightarrow> (nat \<Rightarrow> byte list) \<Rightarrow> OfferManager \<Rightarrow> server \<Rightarrow> bool"
where
  "server_reachable env rd streams om \<equiv> reachable ((=) (init_server om)) (server_step env rd streams)"

section \<open>One handler alone is \<^verbatim>\<open>reader\<close>\<close>

text \<open>What \<^verbatim>\<open>reader\<close> is in terms of the pieces.\<close>

lemma reader_pieces:
  "reader env cr rd now bs om =
     (case handler_receive rd bs of
        Inl p \<Rightarrow> Inl p
      | Inr (HAnnounce (MStorageRequest r)) \<Rightarrow>
          (case ProcessStorageRequest env r om of
             (resp, om') \<Rightarrow> Inr (publishEvent (MStorageRequest r) [],
                write_bytes (MarshalToProtobuf (MStorageResponse resp)), om'))
      | Inr (HAnnounce (MRetrievalRequest r)) \<Rightarrow>
          Inr (publishEvent (MRetrievalRequest r) [],
            write_bytes (MarshalToProtobuf (MRetrievalResponse (ProcessRetrievalRequest now r om))), om)
      | Inr _ \<Rightarrow> Inr ([], None, om))"
  by (auto simp: reader_def handler_receive_def Let_def split: option.splits sum.splits message.splits)

lemma publishEvent_append: "publishEvent m evs = evs @ publishEvent m []"
  by (cases m) simp_all

text \<open>A chain of steps; the state after each is left to unification.\<close>

lemma run_step: "server_step env rd streams s t \<Longrightarrow> (server_step env rd streams)\<^sup>*\<^sup>* t u \<Longrightarrow>
    (server_step env rd streams)\<^sup>*\<^sup>* s u"
  by (rule converse_rtranclp_into_rtranclp)

definition alone :: "nat \<Rightarrow> handler \<Rightarrow> OfferManager \<Rightarrow> event list \<Rightarrow> server \<Rightarrow> bool" where
  "alone i h om evs s \<longleftrightarrow>
     sv_handlers s i = h \<and> sv_om s = om \<and> sv_events s = evs \<and> sv_crash s = None"

lemma storage_run:
  assumes "alone i (HServe (MStorageRequest r)) om evs s"
    and "ProcessStorageRequest env r om = (resp, om')"
  shows "\<exists>t. (server_step env rd streams)\<^sup>*\<^sup>* s t \<and> alone i (HAnswer (MStorageResponse resp)) om' evs t"
proof (cases rule: ProcessStorageRequest_cases [where env = env and request = r and om = om])
  case refused
  have "server_step env rd streams s (move i (HAnswer (verdict env False)) s)"
    by (rule server_step.refuses [where r = r]) (use assms refused in \<open>simp_all add: alone_def\<close>)
  then have "(server_step env rd streams)\<^sup>*\<^sup>* s (move i (HAnswer (verdict env False)) s)" by (rule r_into_rtranclp)
  moreover have "alone i (HAnswer (MStorageResponse resp)) om' evs (move i (HAnswer (verdict env False)) s)"
    using assms refused by (simp add: alone_def verdict_def)
  ultimately show ?thesis by blast
next
  case (unhosted om1)
  let ?s1 = "move i (HHost (SQ_Contract r)) s"
  let ?s2 = "move i (HAnswer (verdict env False)) (?s1\<lparr>sv_om := om1\<rparr>)"
  have "server_step env rd streams s ?s1"
    by (rule server_step.admits [where r = r]) (use assms unhosted in \<open>simp_all add: alone_def\<close>)
  moreover have "server_step env rd streams ?s1 ?s2"
    by (rule server_step.fails_to_host [where c = "SQ_Contract r"]) (use assms unhosted in \<open>simp_all add: alone_def\<close>)
  ultimately have "(server_step env rd streams)\<^sup>*\<^sup>* s ?s2"
    by (intro run_step [of env rd streams s] r_into_rtranclp)
  moreover have "alone i (HAnswer (MStorageResponse resp)) om' evs ?s2"
    using assms unhosted by (simp add: alone_def verdict_def)
  ultimately show ?thesis by blast
next
  case (committed om1 d om2)
  let ?c = "SQ_Contract r"
  let ?s1 = "move i (HHost ?c) s"
  let ?s2 = "move i (HCommit ?c) (?s1\<lparr>sv_om := om1\<rparr>)"
  let ?s3 = "move i (HAnswer (verdict env d)) (?s2\<lparr>sv_om := om2,
      sv_taken := (if d then sv_taken ?s2 @ [?c] else sv_taken ?s2)\<rparr>)"
  have "server_step env rd streams s ?s1"
    by (rule server_step.admits [where r = r]) (use assms committed in \<open>simp_all add: alone_def\<close>)
  moreover have "server_step env rd streams ?s1 ?s2"
    by (rule server_step.hosts [where c = ?c]) (use assms committed in \<open>simp_all add: alone_def\<close>)
  moreover have "server_step env rd streams ?s2 ?s3"
    by (rule server_step.commits [where c = ?c]) (use assms committed in \<open>simp_all add: alone_def\<close>)
  ultimately have "(server_step env rd streams)\<^sup>*\<^sup>* s ?s3"
    by (meson run_step r_into_rtranclp)
  moreover have "alone i (HAnswer (MStorageResponse resp)) om' evs ?s3"
    using assms committed by (simp add: alone_def verdict_def)
  ultimately show ?thesis by blast
qed

lemma serve_run:
  assumes "handler_receive rd bs = Inr (HAnnounce m)" and "alone i (HServe m) om (evs0 @ publishEvent m []) s"
    and "reader env cr rd now bs om = Inr (evs, out, om')"
  shows "\<exists>t m'. (server_step env rd streams)\<^sup>*\<^sup>* s t \<and> alone i (HAnswer m') om' (evs0 @ evs) t \<and>
    out = write_bytes (MarshalToProtobuf m')"
proof -
  consider r where "m = MStorageRequest r" | r where "m = MRetrievalRequest r"
    using assms(1) by (auto simp: handler_receive_def split: option.splits if_splits sum.splits message.splits)
  then show ?thesis
  proof cases
    case (1 r)
    obtain resp om2 where p: "ProcessStorageRequest env r om = (resp, om2)" by fastforce
    have out: "om2 = om'" "evs = publishEvent m []"
      "out = write_bytes (MarshalToProtobuf (MStorageResponse resp))"
      using assms(1,3) 1 p by (simp_all add: reader_pieces)
    have "alone i (HServe (MStorageRequest r)) om (evs0 @ evs) s" using assms(2) 1 out(2) by simp
    from storage_run [OF this p, of rd streams] out show ?thesis by blast
  next
    case (2 r)
    let ?m' = "MRetrievalResponse (ProcessRetrievalRequest now r (sv_om s))"
    have "server_step env rd streams s (move i (HAnswer ?m') s)"
      by (rule server_step.retrieves) (use assms(2) 2 in \<open>auto simp: alone_def\<close>)
    then show ?thesis
      using assms 2
      by (intro exI [of _ "move i (HAnswer ?m') s"] exI [of _ ?m']) (auto simp: reader_pieces alone_def)
  qed
qed


section \<open>The server refines the concurrent offer manager\<close>

fun phase_of :: "handler \<Rightarrow> phase" where
  "phase_of (HHost c) = Admitted c"
| "phase_of (HCommit c) = Hosted c"
| "phase_of (HAnswer (MStorageResponse r)) = Finished (SP_Done r)"
| "phase_of (HEnd (Some (MStorageResponse r))) = Finished (SP_Done r)"
| "phase_of _ = Idle"

definition offer_view :: "server \<Rightarrow> offer_sys" where
  "offer_view s = \<lparr>os_om = sv_om s, os_phase = phase_of \<circ> sv_handlers s, os_trim = sv_trim s,
     os_crashed = (sv_crash s = Some ByTrimmer)\<rparr>"

lemma phase_of_upd [simp]: "phase_of \<circ> f(i := h) = (phase_of \<circ> f)(i := phase_of h)"
  by (rule fun_upd_comp)

lemma phase_same: "phase_of h = phase_of (f i) \<Longrightarrow> (phase_of \<circ> f)(i := phase_of h) = phase_of \<circ> f"
  by (auto simp: fun_eq_iff)

lemma phase_of_received: "handler_receive rd bs = Inr h \<Longrightarrow> phase_of h = Idle"
  by (auto simp: handler_receive_def split: option.splits if_splits sum.splits message.splits)

lemma phase_of_answer: "phase_of (HEnd (Some m)) = phase_of (HAnswer m)"
  by (cases m) simp_all

lemma offer_view_step:
  "server_step env rd streams s t \<Longrightarrow> offer_step env (offer_view s) (offer_view t) \<or> offer_view t = offer_view s"
proof (induction rule: server_step.induct)
  case (receives s i h)
  then show ?case using phase_same [of h "sv_handlers s" i] phase_of_received [OF receives(3)]
    by (simp add: offer_view_def)
next
  case (announces s i m)
  then show ?case using phase_same [of "HServe m" "sv_handlers s" i] by (simp add: offer_view_def)
next
  case (admits s i r)
  then show ?case using offer_step.admit [of "offer_view s" i "SQ_Contract r" env] by (simp add: offer_view_def)
next
  case (refuses s i r)
  then show ?case using offer_step.refuse [of "offer_view s" i "SQ_Contract r" env]
    by (simp add: offer_view_def verdict_def)
next
  case (hosts s i c om')
  then show ?case using offer_step.host [of "offer_view s" i c env om'] by (simp add: offer_view_def)
next
  case (fails_to_host s i c om')
  then show ?case using offer_step.host_fail [of "offer_view s" i c env om']
    by (simp add: offer_view_def verdict_def)
next
  case (commits s i c d om')
  then show ?case using offer_step.commit [of "offer_view s" i c env d om']
    by (simp add: offer_view_def verdict_def)
next
  case (retrieves s i r now)
  then show ?case
    using phase_same [of "HAnswer (MRetrievalResponse (ProcessRetrievalRequest now r (sv_om s)))" "sv_handlers s" i]
    by (simp add: offer_view_def)
next
  case (answers s i m)
  then show ?case using phase_same [of "HEnd (Some m)" "sv_handlers s" i]
    by (simp add: offer_view_def phase_of_answer)
next
  case (scans s clock)
  then show ?case using offer_step.scan [of "offer_view s" env clock] by (simp add: offer_view_def)
next
  case (trims s ixs om')
  then show ?case using offer_step.trim [of "offer_view s" ixs env om'] by (simp add: offer_view_def)
next
  case (trim_crashes s ixs p)
  then show ?case using offer_step.trim_panic [of "offer_view s" ixs env p] by (simp add: offer_view_def)
next
  case (sets_offer s cap now)
  then show ?case using offer_step.set_offer [of env "offer_view s" now cap] by (simp add: offer_view_def)
next
  case (gets_offer s now)
  then show ?case using offer_step.get_offer [of env "offer_view s" now] by (simp add: offer_view_def)
qed (simp_all add: offer_view_def)

interpretation handlers: simulation "(=) (init_server om)" "server_step env rd streams" "\<lambda>_. True"
  offer_view "(=) (init_sys om)" "offer_step env" for env rd streams om
proof unfold_locales
  show "(=) (init_server om) s \<Longrightarrow> init_sys om = offer_view s" for s
    by (auto simp: init_server_def init_sys_def offer_view_def fun_eq_iff)
qed (use offer_view_step in auto)

section \<open>Crashes, events and the capacity\<close>

lemma trim_valid:
  assumes "server_reachable env rd streams om s"
  shows "trim_inv (offer_view s)"
  using trimmer.invariant [OF handlers.simulated [OF assms]] .

text \<open>A stream whose request lacks the part its type announces.\<close>

definition malformed :: "full_reader \<Rightarrow> byte list \<Rightarrow> bool" where
  "malformed rd bs \<longleftrightarrow> (\<exists>inm. receive rd bs = Some inm \<and> (m_Type inm = 1 \<or> m_Type inm = 3) \<and>
     \<not> announced_present inm)"

lemma handler_receive_panics: "handler_receive rd bs = Inl p \<Longrightarrow> malformed rd bs"
  by (auto simp: handler_receive_def malformed_def UnmarshalFromProtobuf_def announced_present_def
      Message_Type_defs split: option.splits if_splits)

definition told :: "event list \<Rightarrow> handler \<Rightarrow> bool" where
  "told evs h =
     (case h of
        HServe m \<Rightarrow> set (publishEvent m []) \<subseteq> set evs
      | HHost c \<Rightarrow> \<exists>a. StorageRequestEvt a c \<in> set evs
      | HCommit c \<Rightarrow> \<exists>a. StorageRequestEvt a c \<in> set evs
      | _ \<Rightarrow> True)"

definition announced :: "server \<Rightarrow> bool" where
  "announced s \<longleftrightarrow> (\<forall>i. told (sv_events s) (sv_handlers s i)) \<and>
     (\<forall>c\<in>set (sv_taken s). \<exists>a. StorageRequestEvt a c \<in> set (sv_events s))"

definition balanced :: "server \<Rightarrow> bool" where
  "balanced s \<longleftrightarrow> (om_isOfferSet (sv_om s) \<longrightarrow> o_Capacity (om_offer (sv_om s)) =
     sv_promised s + sum_list (map c_Size (sv_returned s)) - sum_list (map c_Size (sv_taken s)))"

definition blamed :: "full_reader \<Rightarrow> (nat \<Rightarrow> byte list) \<Rightarrow> server \<Rightarrow> bool" where
  "blamed rd streams s \<longleftrightarrow> (\<forall>i. sv_crash s = Some (ByStream i) \<longrightarrow> malformed rd (streams i))"

lemma flagged_nth: "length fs = length cs \<Longrightarrow> flagged fs cs = map (\<lambda>i. cs ! (i - k)) (idx k fs)"
proof (induction fs arbitrary: cs k)
  case (Cons f fs)
  then obtain c cs' where cs: "cs = c # cs'" "length fs = length cs'" by (cases cs) auto
  have "cs ! (i - k) = cs' ! (i - Suc k)" if "i \<in> set (idx (Suc k) fs)" for i
    using idx_ge [OF that] cs by (simp add: Suc_diff_le nth_Cons')
  with Cons.IH [OF cs(2), of "Suc k"] cs show ?case by simp
qed simp

lemma trim_apply_capacity:
  assumes "scan_valid ixs (om_contracts om)" and "trim_apply env ixs om = Inr om'"
  shows "om_isOfferSet om' = om_isOfferSet om"
    and "om_isOfferSet om \<Longrightarrow> o_Capacity (om_offer om') =
      o_Capacity (om_offer om) + sum_list (map c_Size (map ((!) (om_contracts om)) ixs))"
proof -
  obtain fs where fs: "length fs \<le> length (om_contracts om)" "ixs = idx 0 fs"
    using assms(1) by (auto simp: scan_valid_def)
  let ?fs = "fs @ replicate (length (om_contracts om) - length fs) False"
  have len: "length ?fs = length (om_contracts om)" using fs by simp
  have ixs: "idx 0 ?fs = ixs" by (simp add: idx_append fs(2))
  have "flagged ?fs (om_contracts om) = map ((!) (om_contracts om)) ixs"
    using flagged_nth [OF len, of 0] ixs by simp
  with trim_apply_flags [OF len, of env] assms(2) ixs
  show "om_isOfferSet om' = om_isOfferSet om"
    and "om_isOfferSet om \<Longrightarrow> o_Capacity (om_offer om') =
      o_Capacity (om_offer om) + sum_list (map c_Size (map ((!) (om_contracts om)) ixs))"
    by auto
qed

lemma told_later: "told evs h \<Longrightarrow> told (evs @ evs') h"
  by (auto simp: told_def split: handler.splits)

lemma announced_step: "server_step env rd streams s t \<Longrightarrow> announced s \<Longrightarrow> announced t"
proof (induction rule: server_step.induct)
  case (receives s i h)
  have "told evs h" for evs
    using receives(3)
    by (auto simp: handler_receive_def told_def split: option.splits if_splits sum.splits message.splits)
  with receives(4) show ?case by (simp add: announced_def)
next
  case (announces s i m)
  have "publishEvent m (sv_events s) = sv_events s @ publishEvent m []" by (rule publishEvent_append)
  moreover have "told (evs @ publishEvent m []) (HServe m)" for evs by (simp add: told_def)
  ultimately show ?case using announces(3) told_later by (auto simp: announced_def)
next
  case (admits s i r)
  then have "told (sv_events s) (HServe (MStorageRequest r))" by (auto simp: announced_def dest: spec [of _ i])
  with admits(4) show ?case by (auto simp: announced_def told_def)
next
  case (hosts s i c om')
  then have "told (sv_events s) (HHost c)" by (auto simp: announced_def dest: spec [of _ i])
  with hosts(4) show ?case by (auto simp: announced_def told_def)
next
  case (commits s i c d om')
  then have "told (sv_events s) (HCommit c)" by (auto simp: announced_def dest: spec [of _ i])
  with commits(4) show ?case by (auto simp: announced_def told_def verdict_def)
qed (auto simp: announced_def told_def verdict_def)

lemma psr_host_offer: "psr_host env c om = (ok, om') \<Longrightarrow> om_offer om' = om_offer om \<and> om_isOfferSet om' = om_isOfferSet om"
  using psr_host_frame by blast

lemma SetOffer_offer:
  "om_isOfferSet (snd (SetOffer env now cap om))" "o_Capacity (om_offer (snd (SetOffer env now cap om))) = cap"
  by (simp_all add: SetOffer_def)

lemma GetOffer_offer:
  "om_isOfferSet (snd (GetOffer env now om)) = om_isOfferSet om"
  "o_Capacity (om_offer (snd (GetOffer env now om))) = o_Capacity (om_offer om)"
  by (simp_all add: GetOffer_def updateOffer_def Let_def split: option.splits)

lemma balanced_step:
  "server_step env rd streams s t \<Longrightarrow> trim_inv (offer_view s) \<Longrightarrow> balanced s \<Longrightarrow> balanced t"
proof (induction rule: server_step.induct)
  case (hosts s i c om')
  then show ?case using psr_host_offer [OF hosts(3)] by (simp add: balanced_def)
next
  case (fails_to_host s i c om')
  then show ?case using psr_host_offer [OF fails_to_host(3)] by (simp add: balanced_def)
next
  case (commits s i c d om')
  then show ?case
    using psr_commit_frame(2,4) [OF commits(3)] by (cases d) (auto simp: balanced_def diff_diff_eq)
next
  case (trims s ixs om')
  then have "scan_valid ixs (om_contracts (sv_om s))" by (simp add: trim_inv_def offer_view_def)
  from trim_apply_capacity [OF this trims(3)] trims(5) show ?case by (simp add: balanced_def algebra_simps)
qed (auto simp: balanced_def SetOffer_offer GetOffer_offer)

lemma blamed_step: "server_step env rd streams s t \<Longrightarrow> blamed rd streams s \<Longrightarrow> blamed rd streams t"
  by (induction rule: server_step.induct) (auto simp: blamed_def dest: handler_receive_panics)

interpretation server: invariant_system "(=) (init_server om)" "server_step env rd streams"
  "\<lambda>s. trim_inv (offer_view s) \<and> announced s \<and> balanced s \<and> blamed rd streams s"
  for env rd streams om
proof unfold_locales
  show "(=) (init_server om) s \<Longrightarrow>
      trim_inv (offer_view s) \<and> announced s \<and> balanced s \<and> blamed rd streams s" for s
    by (auto simp: trim_inv_def offer_view_def announced_def told_def balanced_def blamed_def init_server_def)
  show "server_step env rd streams s t \<Longrightarrow>
      trim_inv (offer_view s) \<and> announced s \<and> balanced s \<and> blamed rd streams s \<Longrightarrow>
      trim_inv (offer_view t) \<and> announced t \<and> balanced t \<and> blamed rd streams t" for s t
    using offer_view_step offer_step_trim_inv announced_step balanced_step blamed_step by metis
qed

text \<open>C18: The server is the concurrent offer manager: whatever streams arrive and however their
  handlers, the trimmer and the calls interleave, the offer manager's part of every reachable
  state is a reachable state of the offer manager under concurrency.\<close>

theorem server_refines_offer_sys:
  "offer_view ` {s. server_reachable env rd streams om s} \<subseteq> {s. offer_reachable env om s}"
  using handlers.simulated by blast


text \<open>C5: Only a malformed request crashes the server: if a goroutine has panicked, it was the handler
  of a stream whose request lacks the part its type announces, never the trimmer; and no contract
  was accepted before its request was announced as an event.\<close>

theorem only_malformed_streams_crash:
  assumes "server_reachable env rd streams om s"
  shows "(case sv_crash s of None \<Rightarrow> True | Some ByTrimmer \<Rightarrow> False
      | Some (ByStream i) \<Rightarrow> malformed rd (streams i)) \<and>
    set (sv_taken s) \<subseteq> {c. \<exists>a. StorageRequestEvt a c \<in> set (sv_events s)}"
  using server.invariant [OF assms]
  by (auto simp: trim_inv_def offer_view_def blamed_def announced_def
      split: option.splits crash.splits)

section \<open>Witnesses\<close>

definition demo_streams :: "nat \<Rightarrow> byte list" where
  "demo_streams i = (if i = 0 then wire_PbMessage (MarshalToProtobuf (MStorageRequest demo_request)) else [8, 1])"

lemma demo_stream_received:
  "handler_receive demo_reader (demo_streams 0) = Inr (HAnnounce (MStorageRequest demo_request))"
proof -
  have "trunc_message (MStorageRequest demo_request) = MStorageRequest demo_request"
    by (simp add: demo_request_def demo_contract_def trunc_time_def time_Unix_def)
  then show ?thesis
    using receive_marshalled [OF whole_demo_reader demo_request_fits]
      Unmarshal_MarshalToProtobuf [of "MStorageRequest demo_request"]
    by (simp add: handler_receive_def demo_streams_def Marshal_Type Message_Type_defs)
qed


lemma demo_server_start:
  "server_reachable demo_env demo_reader demo_streams (demo_om [] 10) (init_server (demo_om [] 10))"
  by (rule reach_init) (rule refl)


theorem only_malformed_streams_crash_witness:
  "\<exists>s. server_reachable demo_env demo_reader demo_streams (demo_om [] 10) s \<and>
     sv_crash s = Some (ByStream 7) \<and> malformed demo_reader (demo_streams 7)"
proof -
  let ?start = "init_server (demo_om [] 10)" and ?s = "(init_server (demo_om [] 10))\<lparr>sv_crash := Some (ByStream 7)\<rparr>"
  have "receive demo_reader (demo_streams 7) = Some (zero_PbMessage\<lparr>m_Type := 1\<rparr>)"
    using missing_submessage_panics by (simp add: receive_def demo_reader_def read_limit_def demo_streams_def)
  then have "handler_receive demo_reader (demo_streams 7) = Inl NilDereference"
    using missing_submessage_panics by (simp add: handler_receive_def Message_Type_defs)
  then have "server_step demo_env demo_reader demo_streams ?start ?s"
    by (intro server_step.crashes) (simp_all add: init_server_def)
  with demo_server_start have r: "server_reachable demo_env demo_reader demo_streams (demo_om [] 10) ?s"
    by (rule reach_step)
  from only_malformed_streams_crash [OF r] r show ?thesis by (intro exI [of _ ?s]) simp
qed

end
