(* ===== verification/EventBus.thy ===== *)
theory EventBus
  imports Prelude
begin

text \<open>
  One event subscription (\<^verbatim>\<open>events/event_handler.go\<close>): a publisher, a subscriber and the goroutine
  \<^verbatim>\<open>handleClose\<close> around two unbuffered channels, the event channel \<^verbatim>\<open>c\<close> and the close signal
  \<^verbatim>\<open>doneC\<close>.  An unbuffered send and its receive are one joint step.  Several goroutines may be
  inside \<^verbatim>\<open>Publish\<close> at once; the subscriber belongs to one goroutine.
\<close>

section \<open>State\<close>

text \<open>A call of \<^verbatim>\<open>Publish\<close>: not running, past the \<^verbatim>\<open>Closed\<close> test and in its select, or returned
  (\<open>True\<close> for the nil error).\<close>

datatype 'e pub_pc = PIdle | PSelect 'e | PReturned bool

text \<open>\<^verbatim>\<open>handleClose\<close>: waiting on \<^verbatim>\<open>doneC\<close>, woken and about to take the lock, finished.\<close>

datatype handler_pc = HWait | HWoken | HFinished

text \<open>The subscriber: between calls, blocked in \<^verbatim>\<open>Next\<close>, in \<^verbatim>\<open>Close\<close> blocked on its signal, in \<^verbatim>\<open>Close\<close>
  after it, closed.\<close>

datatype sub_pc = SOpen | SNext | SSignal | SSignalled | SClosed

record 'e bus =
  b_pubs :: "nat \<Rightarrow> 'e pub_pc"
  b_handler :: handler_pc
  b_sub :: sub_pc
  b_pub_closed :: bool        \<comment> \<open>\<^verbatim>\<open>publisher.closed\<close>\<close>
  b_c_closed :: bool          \<comment> \<open>the event channel is closed\<close>
  b_done_closed :: bool       \<comment> \<open>the signal channel is closed\<close>
  b_received :: "'e list"     \<comment> \<open>what \<^verbatim>\<open>Next\<close> has returned, oldest first\<close>
  b_panic :: "panic option"

definition NewSubscription :: "'e bus" where
  "NewSubscription = \<lparr>b_pubs = (\<lambda>_. PIdle), b_handler = HWait, b_sub = SOpen,
     b_pub_closed = False, b_c_closed = False, b_done_closed = False, b_received = [],
     b_panic = None\<rparr>"

section \<open>Steps\<close>

text \<open>The sequential part of \<^verbatim>\<open>Publish\<close> and of \<^verbatim>\<open>Next\<close>.\<close>

definition Publish_enter :: "'e bus \<Rightarrow> 'e \<Rightarrow> 'e pub_pc" where
  "Publish_enter b evt = (if b_pub_closed b then PReturned False else PSelect evt)"

text \<open>The critical section of \<^verbatim>\<open>handleClose\<close>; closing a closed channel would panic.\<close>

definition handleClose_locked :: "'e bus \<Rightarrow> 'e bus" where
  "handleClose_locked b =
     (if b_c_closed b then b\<lparr>b_panic := Some CloseOfClosedChannel\<rparr>
      else b\<lparr>b_pub_closed := True, b_c_closed := True, b_handler := HFinished\<rparr>)"

text \<open>The last two statements of \<^verbatim>\<open>Close\<close>.\<close>

definition Close_finish :: "'e bus \<Rightarrow> 'e bus" where
  "Close_finish b =
     (if b_done_closed b then b\<lparr>b_panic := Some CloseOfClosedChannel\<rparr>
      else b\<lparr>b_done_closed := True, b_sub := SClosed\<rparr>)"

inductive bus_step :: "'e bus \<Rightarrow> 'e bus \<Rightarrow> bool" where
  publish: "b_panic b = None \<Longrightarrow> b_pubs b i = PIdle \<Longrightarrow>
    bus_step b (b\<lparr>b_pubs := (b_pubs b)(i := Publish_enter b evt)\<rparr>)"
| republish: "b_panic b = None \<Longrightarrow> b_pubs b i = PReturned r \<Longrightarrow>
    bus_step b (b\<lparr>b_pubs := (b_pubs b)(i := PIdle)\<rparr>)"
| call_next: "b_panic b = None \<Longrightarrow> b_sub b = SOpen \<Longrightarrow> bus_step b (b\<lparr>b_sub := SNext\<rparr>)"
| deliver: "b_panic b = None \<Longrightarrow> b_pubs b i = PSelect evt \<Longrightarrow> \<not> b_c_closed b \<Longrightarrow> b_sub b = SNext \<Longrightarrow>
    bus_step b (b\<lparr>b_pubs := (b_pubs b)(i := PReturned True), b_sub := SOpen,
                 b_received := b_received b @ [evt]\<rparr>)"
| call_close: "b_panic b = None \<Longrightarrow> b_sub b = SOpen \<Longrightarrow> bus_step b (b\<lparr>b_sub := SSignal\<rparr>)"
| signal_handler: "b_panic b = None \<Longrightarrow> b_sub b = SSignal \<Longrightarrow> b_handler b = HWait \<Longrightarrow>
    bus_step b (b\<lparr>b_sub := SSignalled, b_handler := HWoken\<rparr>)"
| signal_publisher: "b_panic b = None \<Longrightarrow> b_sub b = SSignal \<Longrightarrow> b_pubs b i = PSelect evt \<Longrightarrow>
    bus_step b (b\<lparr>b_sub := SSignalled, b_pubs := (b_pubs b)(i := PReturned False)\<rparr>)"
| close_done: "b_panic b = None \<Longrightarrow> b_sub b = SSignalled \<Longrightarrow> bus_step b (Close_finish b)"
| handler_done_closed: "b_panic b = None \<Longrightarrow> b_handler b = HWait \<Longrightarrow> b_done_closed b \<Longrightarrow>
    bus_step b (b\<lparr>b_handler := HWoken\<rparr>)"
| publisher_done_closed: "b_panic b = None \<Longrightarrow> b_pubs b i = PSelect evt \<Longrightarrow> b_done_closed b \<Longrightarrow>
    bus_step b (b\<lparr>b_pubs := (b_pubs b)(i := PReturned False)\<rparr>)"
| handler_close: "b_panic b = None \<Longrightarrow> b_handler b = HWoken \<Longrightarrow> bus_step b (handleClose_locked b)"
| send_on_closed: "b_panic b = None \<Longrightarrow> b_pubs b i = PSelect evt \<Longrightarrow> b_c_closed b \<Longrightarrow>
    bus_step b (b\<lparr>b_panic := Some SendOnClosedChannel\<rparr>)"

lemmas bus_defs = Publish_enter_def handleClose_locked_def Close_finish_def NewSubscription_def

abbreviation bus_reachable :: "'e bus \<Rightarrow> bool" where
  "bus_reachable \<equiv> reachable ((=) NewSubscription) bus_step"

section \<open>The invariant of a subscription\<close>

text \<open>
  The closing protocol in one line per goroutine: the handler still waits until the subscriber
  has signalled, the signal channel is closed exactly by a closed subscriber, and the event
  channel and the publisher's flag are closed together by the finished handler.
\<close>

definition bus_inv :: "'e bus \<Rightarrow> bool" where
  "bus_inv b \<longleftrightarrow>
     (b_sub b \<in> {SOpen, SNext, SSignal} \<longrightarrow> b_handler b = HWait) \<and>
     (b_done_closed b \<longleftrightarrow> b_sub b = SClosed) \<and>
     (b_c_closed b \<longleftrightarrow> b_handler b = HFinished) \<and>
     (b_pub_closed b \<longleftrightarrow> b_handler b = HFinished) \<and>
     b_panic b \<noteq> Some CloseOfClosedChannel"

lemma bus_step_inv: "bus_step b b' \<Longrightarrow> bus_inv b \<Longrightarrow> bus_inv b'"
  by (induction rule: bus_step.induct) (auto simp: bus_inv_def bus_defs)

interpretation bus: invariant_system "(=) NewSubscription" bus_step bus_inv
proof unfold_locales
  show "(=) NewSubscription s \<Longrightarrow> bus_inv s" for s :: "'e bus"
    by (auto simp: bus_inv_def NewSubscription_def)
qed (rule bus_step_inv)

section \<open>Properties\<close>


text \<open>As long as the subscriber has not begun to close, no publisher panics and none is told that
  the subscription is closed: every \<^verbatim>\<open>Publish\<close> enters its select and waits for the subscriber.\<close>

theorem open_subscription_safe:
  assumes "bus_reachable b" and "b_sub b \<in> {SOpen, SNext, SSignal}"
  shows "\<not> b_pub_closed b \<and> Publish_enter b evt = PSelect evt \<and> \<not> b_done_closed b \<and>
    (\<forall>b'. bus_step b b' \<longrightarrow> b_panic b' = b_panic b)"
proof -
  have inv: "bus_inv b" using assms(1) by (rule bus.invariant)
  have "b_panic b' = b_panic b" if "bus_step b b'" for b'
    using that inv assms(2) by cases (auto simp: bus_inv_def bus_defs)
  with inv assms(2) show ?thesis by (auto simp: bus_inv_def Publish_enter_def)
qed

text \<open>C28: A publisher that passed its \<^verbatim>\<open>Closed\<close> test just before the subscriber closes can panic: the
  handler closes the event channel while the publisher's select still offers to send on it, and
  the process dies with a send on a closed channel.\<close>

theorem publish_can_panic:
  "\<exists>b. bus_reachable b \<and> b_panic b = Some SendOnClosedChannel \<and> b_pubs b 0 = PSelect (evt :: 'e)"
proof -
  define b0 :: "'e bus" where "b0 = NewSubscription"
  define b1 where "b1 = b0\<lparr>b_pubs := (b_pubs b0)(0 := Publish_enter b0 evt)\<rparr>"
  define b2 where "b2 = b1\<lparr>b_sub := SSignal\<rparr>"
  define b3 where "b3 = b2\<lparr>b_sub := SSignalled, b_handler := HWoken\<rparr>"
  define b4 where "b4 = handleClose_locked b3"
  define b5 where "b5 = b4\<lparr>b_panic := Some SendOnClosedChannel\<rparr>"
  note ds = b0_def b1_def b2_def b3_def b4_def b5_def bus_defs
  have "bus_step b0 b1" unfolding b1_def by (rule bus_step.publish) (simp_all add: ds)
  moreover have "bus_step b1 b2" unfolding b2_def by (rule bus_step.call_close) (simp_all add: ds)
  moreover have "bus_step b2 b3" unfolding b3_def by (rule bus_step.signal_handler) (simp_all add: ds)
  moreover have "bus_step b3 b4" unfolding b4_def by (rule bus_step.handler_close) (simp_all add: ds)
  moreover have "bus_step b4 b5"
    unfolding b5_def by (rule bus_step.send_on_closed [of _ 0 evt]) (simp_all add: ds)
  moreover have "bus_reachable b0" unfolding b0_def by (rule reach_init) simp
  ultimately have "bus_reachable b5" by (metis reach_step)
  then show ?thesis by (intro exI [of _ b5]) (simp add: ds)
qed

section \<open>Delivery\<close>

text \<open>What the subscriber receives is what publishers offered: a step either leaves the received
  events alone and lets no call of \<^verbatim>\<open>Publish\<close> newly succeed, or appends the event of one publisher
  in its select, whose call then succeeds, while the subscriber waits in \<^verbatim>\<open>Next\<close>.\<close>

theorem delivery_exact:
  assumes "bus_step b b'"
  shows "b_received b' = b_received b \<and>
      (\<forall>i. b_pubs b' i = PReturned True \<longrightarrow> b_pubs b i = PReturned True) \<or>
    (\<exists>i evt. b_pubs b i = PSelect evt \<and> b_received b' = b_received b @ [evt] \<and>
       b_pubs b' = (b_pubs b)(i := PReturned True) \<and> b_sub b = SNext)"
  using assms by cases (auto simp: bus_defs)

section \<open>Witnesses\<close>


theorem open_subscription_safe_witness:
  "Publish_enter (NewSubscription :: nat bus) 7 = PSelect 7"
  using open_subscription_safe [of "NewSubscription :: nat bus" 7]
    reach_init [where init = "(=) NewSubscription" and s = "NewSubscription :: nat bus"]
  by (simp add: NewSubscription_def)

theorem delivery_exact_witness:
  "\<exists>b b'. bus_step b b' \<and> b_received b = [] \<and> b_received b' = [7 :: nat]"
proof -
  let ?b = "(NewSubscription :: nat bus)\<lparr>b_pubs := (\<lambda>_. PSelect 7), b_sub := SNext\<rparr>"
  let ?b' = "?b\<lparr>b_pubs := (b_pubs ?b)(0 := PReturned True), b_sub := SOpen,
      b_received := b_received ?b @ [7]\<rparr>"
  have st: "bus_step ?b ?b'" by (rule bus_step.deliver [of _ 0 7]) (simp_all add: NewSubscription_def)
  have "b_pubs ?b' 0 = PReturned True" "b_pubs ?b 0 \<noteq> PReturned True" by simp_all
  with delivery_exact [OF st] have "b_received ?b' = b_received ?b @ [7]" by auto
  with st show ?thesis by (intro exI [of _ ?b] exI [of _ ?b']) (simp add: NewSubscription_def)
qed

end
