(* ===== verification/NodeEvents.thy ===== *)
theory NodeEvents
  imports EventBus Events
begin

text \<open>
  The node's event hub (\<^verbatim>\<open>node/node.go\<close>: \<^verbatim>\<open>publishEvent\<close>, \<^verbatim>\<open>joinEvents\<close>, \<^verbatim>\<open>subscribeToEvents\<close>).  One lock
  guards the list of publishers; \<^verbatim>\<open>publishEvent\<close> holds it while it hands the event to one subscriber
  after the other, each time blocking until that subscriber takes the event or is closed.  The
  single subscription is the subject of \<open>EventBus\<close>; here a subscriber is what the hub sees of it.  The
  sources of \<^verbatim>\<open>joinEvents\<close> are never closed by the program, so its \<^verbatim>\<open>Next\<close> always yields an event.
\<close>

section \<open>State\<close>

text \<open>A subscriber that keeps calling \<^verbatim>\<open>Next\<close>, one whose owner forgot it, and a closed one.\<close>

datatype subscriber = Reading | Forgotten | Closed

text \<open>The lock is free, or held by \<^verbatim>\<open>publishEvent\<close> at a position of the list.\<close>

datatype hub_pc = HubFree | HubAt nat event

record hub =
  hub_subs :: "subscriber list"
  hub_pc :: hub_pc
  hub_log :: "(nat \<times> event) list"      \<comment> \<open>deliveries, oldest first\<close>

definition init_hub :: hub where
  "init_hub = \<lparr>hub_subs = [], hub_pc = HubFree, hub_log = []\<rparr>"

section \<open>Steps\<close>

text \<open>The three critical sections of the lock: adding a subscriber, taking it for an event a source
  handed to \<^verbatim>\<open>joinEvents\<close>, and passing on to the next subscriber.\<close>

definition subscribeToEvents :: "hub \<Rightarrow> hub" where
  "subscribeToEvents h = h\<lparr>hub_subs := hub_subs h @ [Reading]\<rparr>"

definition joinEvents_publish :: "event \<Rightarrow> hub \<Rightarrow> hub" where
  "joinEvents_publish evt h = h\<lparr>hub_pc := HubAt 0 evt\<rparr>"

definition next_publisher :: "nat \<Rightarrow> event \<Rightarrow> bool \<Rightarrow> hub \<Rightarrow> hub" where
  "next_publisher i evt delivered h =
     h\<lparr>hub_pc := HubAt (Suc i) evt,
       hub_log := (if delivered then hub_log h @ [(i, evt)] else hub_log h)\<rparr>"

lemmas hub_defs [simp] = subscribeToEvents_def joinEvents_publish_def next_publisher_def

inductive hub_step :: "hub \<Rightarrow> hub \<Rightarrow> bool" where
  subscribe: "hub_pc h = HubFree \<Longrightarrow> hub_step h (subscribeToEvents h)"
| publish: "hub_pc h = HubFree \<Longrightarrow> hub_step h (joinEvents_publish evt h)"
| skip_closed: "hub_pc h = HubAt i evt \<Longrightarrow> i < length (hub_subs h) \<Longrightarrow> hub_subs h ! i = Closed \<Longrightarrow>
    hub_step h (next_publisher i evt False h)"
| deliver: "hub_pc h = HubAt i evt \<Longrightarrow> i < length (hub_subs h) \<Longrightarrow> hub_subs h ! i = Reading \<Longrightarrow>
    hub_step h (next_publisher i evt True h)"
| unlock: "hub_pc h = HubAt i evt \<Longrightarrow> i = length (hub_subs h) \<Longrightarrow> hub_step h (h\<lparr>hub_pc := HubFree\<rparr>)"
| close_sub: "i < length (hub_subs h) \<Longrightarrow> hub_subs h ! i = Reading \<Longrightarrow>
    hub_step h (h\<lparr>hub_subs := (hub_subs h)[i := Closed]\<rparr>)"
| forget: "i < length (hub_subs h) \<Longrightarrow> hub_subs h ! i = Reading \<Longrightarrow>
    hub_step h (h\<lparr>hub_subs := (hub_subs h)[i := Forgotten]\<rparr>)"

inductive_cases hub_stepE: "hub_step h h'"

abbreviation hub_reachable :: "hub \<Rightarrow> bool" where
  "hub_reachable \<equiv> reachable ((=) init_hub) hub_step"

section \<open>Invariant\<close>

definition hub_inv :: "hub \<Rightarrow> bool" where
  "hub_inv h \<longleftrightarrow> (\<forall>i evt. hub_pc h = HubAt i evt \<longrightarrow> i \<le> length (hub_subs h)) \<and>
     (\<forall>d\<in>set (hub_log h). fst d < length (hub_subs h))"

lemma hub_step_inv: "hub_step h h' \<Longrightarrow> hub_inv h \<Longrightarrow> hub_inv h'"
  by (induction rule: hub_step.induct) (auto simp: hub_inv_def)

interpretation hub: invariant_system "(=) init_hub" hub_step hub_inv
  by unfold_locales (auto simp: hub_inv_def init_hub_def dest: hub_step_inv [unfolded hub_inv_def])

section \<open>Progress\<close>

lemma publish_from:
  assumes "i \<le> length (hub_subs h)" and "hub_pc h = HubAt i evt"
    and "\<forall>j<length (hub_subs h). i \<le> j \<longrightarrow> hub_subs h ! j \<noteq> Forgotten"
  shows "hub_step\<^sup>*\<^sup>* h (h\<lparr>hub_pc := HubFree,
     hub_log := hub_log h @ [(j, evt). j \<leftarrow> [i..<length (hub_subs h)], hub_subs h ! j = Reading]\<rparr>)"
  using assms
proof (induction "length (hub_subs h) - i" arbitrary: i h)
  case 0
  then have i: "i = length (hub_subs h)" by simp
  have "hub_step h (h\<lparr>hub_pc := HubFree\<rparr>)" by (rule unlock [OF 0(3)]) (rule i)
  then show ?case using i by (simp add: r_into_rtranclp)
next
  case (Suc n)
  then have i: "i < length (hub_subs h)" by simp
  let ?h = "if hub_subs h ! i = Reading
     then h\<lparr>hub_pc := HubAt (Suc i) evt, hub_log := hub_log h @ [(i, evt)]\<rparr>
     else h\<lparr>hub_pc := HubAt (Suc i) evt\<rparr>"
  have "hub_subs h ! i \<noteq> Forgotten" using Suc.prems(3) i by simp
  then have "hub_step h ?h"
    using deliver [OF Suc.prems(2) i] skip_closed [OF Suc.prems(2) i] by (cases "hub_subs h ! i") auto
  moreover have "hub_step\<^sup>*\<^sup>* ?h (?h\<lparr>hub_pc := HubFree,
     hub_log := hub_log ?h @ [(j, evt). j \<leftarrow> [Suc i..<length (hub_subs ?h)], hub_subs ?h ! j = Reading]\<rparr>)"
    by (rule Suc.hyps(1)) (use Suc i in auto)
  ultimately show ?case
    using i by (simp add: upt_conv_Cons converse_rtranclp_into_rtranclp split: if_splits)
qed

text \<open>As long as no subscriber was forgotten, publishing an event completes: from every reachable
  state in which the lock is free, the event can be delivered to exactly the reading subscribers,
  in the order they subscribed, and the lock is free again.\<close>

theorem publish_completes:
  assumes "hub_pc h = HubFree" and "Forgotten \<notin> set (hub_subs h)"
  shows "hub_step\<^sup>*\<^sup>* h (h\<lparr>hub_log := hub_log h @
     [(j, evt). j \<leftarrow> [0..<length (hub_subs h)], hub_subs h ! j = Reading]\<rparr>)"
proof -
  let ?h = "h\<lparr>hub_pc := HubAt 0 evt\<rparr>"
  have "hub_step h ?h" by (rule publish [OF assms(1), unfolded hub_defs])
  moreover have "hub_step\<^sup>*\<^sup>* ?h (?h\<lparr>hub_pc := HubFree, hub_log := hub_log ?h @
     [(j, evt). j \<leftarrow> [0..<length (hub_subs ?h)], hub_subs ?h ! j = Reading]\<rparr>)"
    by (rule publish_from) (use assms(2) in \<open>auto simp: in_set_conv_nth\<close>)
  moreover have "h\<lparr>hub_pc := HubFree, hub_log := l\<rparr> = h\<lparr>hub_log := l\<rparr>" for l
    using assms(1) by (cases h) simp
  ultimately show ?thesis by (simp add: converse_rtranclp_into_rtranclp)
qed

text \<open>Steps while an event is being published; each of them uses up some of the round.\<close>

definition publishing :: "hub \<Rightarrow> hub \<Rightarrow> bool" where
  "publishing h h' \<longleftrightarrow> hub_pc h \<noteq> HubFree \<and> hub_step h h'"

definition reading :: "hub \<Rightarrow> nat" where
  "reading h = length (filter (\<lambda>x. x = Reading) (hub_subs h))"

definition rounds_left :: "hub \<Rightarrow> nat" where
  "rounds_left h =
     (case hub_pc h of HubFree \<Rightarrow> 0 | HubAt i _ \<Rightarrow> Suc (length (hub_subs h) - i + reading h))"

lemma reading_update:
  "i < length xs \<Longrightarrow> xs ! i = Reading \<Longrightarrow> x \<noteq> Reading \<Longrightarrow>
   Suc (length (filter (\<lambda>x. x = Reading) (xs[i := x]))) = length (filter (\<lambda>x. x = Reading) xs)"
proof (induction xs arbitrary: i)
  case (Cons y ys)
  then show ?case by (cases i) auto
qed simp

lemma publishing_uses_up:
  assumes "publishing h h'"
  shows "rounds_left h' < rounds_left h"
proof -
  have step: "hub_step h h'" and held: "hub_pc h \<noteq> HubFree" using assms by (simp_all add: publishing_def)
  from step held show ?thesis
  proof (induction rule: hub_step.induct)
    case (close_sub i h)
    then show ?case using reading_update [OF close_sub(1,2), of Closed]
      by (auto simp: rounds_left_def reading_def split: hub_pc.splits)
  next
    case (forget i h)
    then show ?case using reading_update [OF forget(1,2), of Forgotten]
      by (auto simp: rounds_left_def reading_def split: hub_pc.splits)
  qed (auto simp: rounds_left_def reading_def)
qed

lemma publishing_position:
  "publishing h h' \<Longrightarrow> hub_inv h \<Longrightarrow> hub_inv h'"
  unfolding publishing_def using hub_step_inv by blast

lemma publishing_run:
  "(publishing ^^ k) h h' \<Longrightarrow> hub_inv h \<Longrightarrow> k + rounds_left h' \<le> rounds_left h \<and> hub_inv h'"
proof (induction k arbitrary: h')
  case (Suc k)
  then obtain g where g: "(publishing ^^ k) h g" "publishing g h'" by auto
  with Suc have "k + rounds_left g \<le> rounds_left h" "hub_inv g" by simp_all
  with publishing_uses_up [OF g(2)] publishing_position [OF g(2)] show ?case by simp
qed simp

text \<open>The hub waiting for a subscriber nobody reads from.\<close>

definition hub_stuck :: "hub \<Rightarrow> nat \<Rightarrow> event \<Rightarrow> bool" where
  "hub_stuck h i evt \<longleftrightarrow>
     hub_pc h = HubAt i evt \<and> i < length (hub_subs h) \<and> hub_subs h ! i = Forgotten"

lemma hub_progress:
  assumes "hub_inv h"
  shows "hub_pc h = HubFree \<or> (\<exists>i evt. hub_stuck h i evt) \<or>
    (\<exists>h'. publishing h h' \<and> hub_pc h' \<noteq> hub_pc h)"
proof (cases "hub_pc h")
  case (HubAt i evt)
  with assms have "i \<le> length (hub_subs h)" by (simp add: hub_inv_def)
  then consider "i = length (hub_subs h)" | "i < length (hub_subs h)" "hub_subs h ! i = Reading"
    | "i < length (hub_subs h)" "hub_subs h ! i = Closed" | "hub_stuck h i evt"
    using HubAt subscriber.exhaust [of "hub_subs h ! i"] unfolding hub_stuck_def by (metis le_neq_implies_less)
  then show ?thesis
  proof cases
    case 1
    then show ?thesis using unlock [OF HubAt] HubAt unfolding publishing_def by force
  next
    case 2
    then show ?thesis using deliver [OF HubAt] HubAt unfolding publishing_def by force
  next
    case 3
    then show ?thesis using skip_closed [OF HubAt] HubAt unfolding publishing_def by force
  qed blast
qed simp


lemma hub_stuck_step:
  "hub_step h h' \<Longrightarrow> hub_stuck h i evt \<Longrightarrow>
   hub_stuck h' i evt \<and> hub_log h' = hub_log h \<and> length (hub_subs h') = length (hub_subs h)"
  by (erule hub_stepE) (auto simp: hub_stuck_def nth_list_update)

lemma hub_stuck_run:
  "hub_step\<^sup>*\<^sup>* h h' \<Longrightarrow> hub_stuck h i evt \<Longrightarrow>
   hub_stuck h' i evt \<and> hub_log h' = hub_log h \<and> length (hub_subs h') = length (hub_subs h)"
  by (induction rule: rtranclp_induct) (auto dest: hub_stuck_step)

text \<open>One forgotten subscriber stops the node's events for good: once an event is offered to a
  subscription whose owner neither reads nor closes it, no event is delivered to anyone any more,
  no later event is taken up and nobody can subscribe, whatever the other subscribers do.\<close>

theorem forgotten_subscriber_blocks:
  assumes "hub_step\<^sup>*\<^sup>* h h'" and "hub_stuck h i evt"
  shows "hub_log h' = hub_log h \<and> length (hub_subs h') = length (hub_subs h) \<and>
    hub_pc h' = HubAt i evt"
  using hub_stuck_run [OF assms] by (simp add: hub_stuck_def)

section \<open>Witnesses\<close>

theorem publish_completes_witness:
  "hub_step\<^sup>*\<^sup>* \<lparr>hub_subs = [Reading, Closed, Reading], hub_pc = HubFree, hub_log = []\<rparr>
     \<lparr>hub_subs = [Reading, Closed, Reading], hub_pc = HubFree,
      hub_log = [(0, RetrievalRequestEvt ''a''), (2, RetrievalRequestEvt ''a'')]\<rparr>"
  using publish_completes [of "\<lparr>hub_subs = [Reading, Closed, Reading], hub_pc = HubFree, hub_log = []\<rparr>"
      "RetrievalRequestEvt ''a''"]
  by (simp add: upt_rec numeral_2_eq_2)


theorem forgotten_subscriber_blocks_witness:
  "{h'. hub_step\<^sup>*\<^sup>* \<lparr>hub_subs = [Forgotten, Reading], hub_pc = HubAt 0 (RetrievalRequestEvt ''a''),
       hub_log = []\<rparr> h'} \<subseteq> {h'. hub_log h' = [] \<and> length (hub_subs h') = 2}"
proof
  let ?h = "\<lparr>hub_subs = [Forgotten, Reading], hub_pc = HubAt 0 (RetrievalRequestEvt ''a''), hub_log = []\<rparr>"
  fix h'
  assume "h' \<in> {h'. hub_step\<^sup>*\<^sup>* ?h h'}"
  then have "hub_step\<^sup>*\<^sup>* ?h h'" by simp
  from forgotten_subscriber_blocks [OF this, of 0 "RetrievalRequestEvt ''a''"]
  show "h' \<in> {h'. hub_log h' = [] \<and> length (hub_subs h') = 2}" by (simp add: hub_stuck_def)
qed

end
