(* ===== verification/HubBuses.thy ===== *)
theory HubBuses
  imports NodeEvents
begin

text \<open>
  The event hub with its real subscriptions: the list of publishers \<^verbatim>\<open>publishEvent\<close> goes through
  (\<^verbatim>\<open>node/node.go\<close>), each of them a subscription of \<open>EventBus\<close> (\<^verbatim>\<open>events/event_handler.go\<close>) with its own
  close handler and channels.  It simulates the hub of \<open>NodeEvents\<close>, where a subscriber was reading,
  forgotten or closed.
\<close>

section \<open>State\<close>

text \<open>\<^verbatim>\<open>publishEvent\<close> before the test of \<^verbatim>\<open>Closed\<close>, before the call of \<^verbatim>\<open>Publish\<close>, and inside it.\<close>

datatype round_pc = RFree | RTest nat event | RCall nat event | RWait nat event

record hub_buses =
  hb_buses :: "event bus list"
  hb_forgotten :: "nat set"                \<comment> \<open>subscriptions whose owner returned without closing\<close>
  hb_pc :: round_pc
  hb_log :: "(nat \<times> event) list"

definition init_buses :: hub_buses where
  "init_buses = \<lparr>hb_buses = [], hb_forgotten = {}, hb_pc = RFree, hb_log = []\<rparr>"

text \<open>The process lives as long as no goroutine panicked.\<close>

definition alive :: "hub_buses \<Rightarrow> bool" where
  "alive h \<longleftrightarrow> list_all (\<lambda>b. b_panic b = None) (hb_buses h)"

text \<open>A step of a subscription on its own: it may end a call of \<^verbatim>\<open>Publish\<close> but not begin one.\<close>

definition pubs_kept :: "event bus \<Rightarrow> event bus \<Rightarrow> bool" where
  "pubs_kept b b' \<longleftrightarrow> (\<forall>j. b_pubs b' j \<noteq> b_pubs b j \<longrightarrow> (\<exists>e. b_pubs b j = PSelect e))"

definition delivered :: "nat \<Rightarrow> event bus \<Rightarrow> event bus \<Rightarrow> (nat \<times> event) list" where
  "delivered i b b' = map (Pair i) (drop (length (b_received b)) (b_received b'))"

text \<open>The call and the return of \<^verbatim>\<open>Publish\<close> on a subscription; there is one publisher, the hub.\<close>

definition begin_publish :: "event \<Rightarrow> event bus \<Rightarrow> event bus" where
  "begin_publish evt b = b\<lparr>b_pubs := (b_pubs b)(0 := Publish_enter b evt)\<rparr>"

definition end_publish :: "event bus \<Rightarrow> event bus" where
  "end_publish b = b\<lparr>b_pubs := (b_pubs b)(0 := PIdle)\<rparr>"

inductive buses_step :: "hub_buses \<Rightarrow> hub_buses \<Rightarrow> bool" where
  new_subscription: "alive h \<Longrightarrow> hb_pc h = RFree \<Longrightarrow>
    buses_step h (h\<lparr>hb_buses := hb_buses h @ [NewSubscription]\<rparr>)"
| take_event: "alive h \<Longrightarrow> hb_pc h = RFree \<Longrightarrow> buses_step h (h\<lparr>hb_pc := RTest 0 evt\<rparr>)"
| is_closed: "alive h \<Longrightarrow> hb_pc h = RTest i evt \<Longrightarrow> i < length (hb_buses h) \<Longrightarrow> b_pub_closed (hb_buses h ! i) \<Longrightarrow>
    buses_step h (h\<lparr>hb_pc := RTest (Suc i) evt\<rparr>)"
| is_open: "alive h \<Longrightarrow> hb_pc h = RTest i evt \<Longrightarrow> i < length (hb_buses h) \<Longrightarrow> \<not> b_pub_closed (hb_buses h ! i) \<Longrightarrow>
    buses_step h (h\<lparr>hb_pc := RCall i evt\<rparr>)"
| call_publish: "alive h \<Longrightarrow> hb_pc h = RCall i evt \<Longrightarrow>
    buses_step h (h\<lparr>hb_pc := RWait i evt, hb_buses := (hb_buses h)[i := begin_publish evt (hb_buses h ! i)]\<rparr>)"
| publish_returns: "alive h \<Longrightarrow> hb_pc h = RWait i evt \<Longrightarrow> b_pubs (hb_buses h ! i) 0 = PReturned r \<Longrightarrow>
    buses_step h (h\<lparr>hb_pc := RTest (Suc i) evt, hb_buses := (hb_buses h)[i := end_publish (hb_buses h ! i)]\<rparr>)"
| release: "alive h \<Longrightarrow> hb_pc h = RTest i evt \<Longrightarrow> i = length (hb_buses h) \<Longrightarrow>
    buses_step h (h\<lparr>hb_pc := RFree\<rparr>)"
| bus_moves: "alive h \<Longrightarrow> i < length (hb_buses h) \<Longrightarrow> bus_step (hb_buses h ! i) b' \<Longrightarrow>
    pubs_kept (hb_buses h ! i) b' \<Longrightarrow> (i \<in> hb_forgotten h \<Longrightarrow> b_sub b' = b_sub (hb_buses h ! i)) \<Longrightarrow>
    buses_step h (h\<lparr>hb_buses := (hb_buses h)[i := b'],
      hb_log := hb_log h @ delivered i (hb_buses h ! i) b'\<rparr>)"
| owner_leaves: "alive h \<Longrightarrow> i < length (hb_buses h) \<Longrightarrow> b_sub (hb_buses h ! i) = SOpen \<Longrightarrow>
    i \<notin> hb_forgotten h \<Longrightarrow> buses_step h (h\<lparr>hb_forgotten := insert i (hb_forgotten h)\<rparr>)"

abbreviation buses_reachable :: "hub_buses \<Rightarrow> bool" where
  "buses_reachable \<equiv> reachable ((=) init_buses) buses_step"

lemmas publish_defs = begin_publish_def end_publish_def Publish_enter_def

section \<open>What a subscription does on its own\<close>

definition closing :: "event bus \<Rightarrow> bool" where
  "closing b \<longleftrightarrow> b_sub b \<notin> {SOpen, SNext}"

lemma own_step_cases:
  assumes "bus_step b b'" and "pubs_kept b b'" and "bus_inv b" and "\<And>j. j \<noteq> 0 \<Longrightarrow> b_pubs b j = PIdle"
  obtains (quiet) "b_pubs b' = b_pubs b" "b_received b' = b_received b" "closing b' = closing b"
    | (begins_closing) "b_pubs b' = b_pubs b" "b_received b' = b_received b" "b_sub b = SOpen" "b_sub b' = SSignal"
    | (delivers) e where "b_pubs b 0 = PSelect e" "b_pubs b' = (b_pubs b)(0 := PReturned True)"
        "b_received b' = b_received b @ [e]" "b_sub b = SNext" "b_sub b' = SOpen"
    | (told_closed) e where "b_pubs b 0 = PSelect e" "b_pubs b' = (b_pubs b)(0 := PReturned False)"
        "b_received b' = b_received b" "closing b" "closing b'"
  using assms(1)
proof cases
  case (publish i evt)
  then have "b_pubs b' i \<noteq> b_pubs b i" by (simp add: Publish_enter_def)
  then have "\<exists>e. b_pubs b i = PSelect e" using assms(2) by (simp add: pubs_kept_def)
  with publish show ?thesis by simp
next
  case (republish i r)
  then have "b_pubs b' i \<noteq> b_pubs b i" by simp
  then have "\<exists>e. b_pubs b i = PSelect e" using assms(2) by (simp add: pubs_kept_def)
  with republish show ?thesis by simp
next
  case (deliver i evt)
  with assms(4) [of i] have "i = 0" by auto
  with deliver show ?thesis by (intro delivers) simp_all
next
  case (signal_publisher i evt)
  with assms(4) [of i] have "i = 0" by auto
  with signal_publisher show ?thesis by (intro told_closed) (simp_all add: closing_def)
next
  case (publisher_done_closed i evt)
  with assms(4) [of i] have "i = 0" by auto
  with publisher_done_closed assms(3) show ?thesis
    by (intro told_closed) (simp_all add: closing_def bus_inv_def)
qed (use that in \<open>auto simp: closing_def bus_defs\<close>)

section \<open>The invariant\<close>

definition at_work :: "round_pc \<Rightarrow> nat \<Rightarrow> event pub_pc \<Rightarrow> bool" where
  "at_work pc k p \<longleftrightarrow>
     (if p = PIdle then \<forall>e. pc \<noteq> RWait k e
      else \<exists>e. pc = RWait k e \<and> (p = PSelect e \<or> p \<in> range PReturned))"

definition position_ok :: "round_pc \<Rightarrow> nat \<Rightarrow> bool" where
  "position_ok pc n \<longleftrightarrow>
     (case pc of RFree \<Rightarrow> True | RTest i _ \<Rightarrow> i \<le> n | RCall i _ \<Rightarrow> i < n | RWait i _ \<Rightarrow> i < n)"

definition buses_inv :: "hub_buses \<Rightarrow> bool" where
  "buses_inv h \<longleftrightarrow>
     position_ok (hb_pc h) (length (hb_buses h)) \<and> hb_forgotten h \<subseteq> {..<length (hb_buses h)} \<and>
     (\<forall>k<length (hb_buses h).
        bus_inv (hb_buses h ! k) \<and> (\<forall>j. j \<noteq> 0 \<longrightarrow> b_pubs (hb_buses h ! k) j = PIdle) \<and>
        at_work (hb_pc h) k (b_pubs (hb_buses h ! k) 0) \<and>
        (k \<in> hb_forgotten h \<longrightarrow> b_sub (hb_buses h ! k) = SOpen))"

lemma bus_inv_new: "bus_inv NewSubscription" "b_pubs NewSubscription j = PIdle" "\<not> closing NewSubscription"
  by (simp_all add: bus_inv_def NewSubscription_def closing_def)

lemma bus_inv_publish: "bus_inv (begin_publish evt b) = bus_inv b" "bus_inv (end_publish b) = bus_inv b"
  by (simp_all add: bus_inv_def publish_defs)

lemma buses_inv_init: "buses_inv init_buses"
  by (simp add: buses_inv_def init_buses_def position_ok_def)

lemma buses_step_inv: "buses_step h h' \<Longrightarrow> buses_inv h \<Longrightarrow> buses_inv h'"
proof (induction rule: buses_step.induct)
  case (new_subscription h)
  then show ?case
    by (auto simp: buses_inv_def position_ok_def nth_append less_Suc_eq bus_inv_new at_work_def)
next
  case (call_publish h i evt)
  then show ?case
    by (auto simp: buses_inv_def position_ok_def nth_list_update bus_inv_publish at_work_def)
      (auto simp: publish_defs split: if_splits)
next
  case (publish_returns h i evt r)
  then show ?case
    by (auto simp: buses_inv_def position_ok_def nth_list_update bus_inv_publish at_work_def)
      (auto simp: publish_defs)
next
  case (bus_moves h i b')
  let ?b = "hb_buses h ! i"
  have inv: "bus_inv ?b" "\<And>j. j \<noteq> 0 \<Longrightarrow> b_pubs ?b j = PIdle" "at_work (hb_pc h) i (b_pubs ?b 0)"
    using bus_moves by (auto simp: buses_inv_def)
  have "bus_inv b'" using bus_step_inv [OF bus_moves(3) inv(1)] .
  moreover have "(\<forall>j. j \<noteq> 0 \<longrightarrow> b_pubs b' j = PIdle) \<and> at_work (hb_pc h) i (b_pubs b' 0)"
    using bus_moves(3,4) inv(1,2) by (rule own_step_cases) (use inv in \<open>auto simp: at_work_def\<close>)
  ultimately show ?case
    using bus_moves by (auto simp: buses_inv_def nth_list_update)
qed (auto simp: buses_inv_def position_ok_def at_work_def)

section \<open>The simulation\<close>

definition sub_view :: "hub_buses \<Rightarrow> nat \<Rightarrow> subscriber" where
  "sub_view h i =
     (if i \<in> hb_forgotten h then Forgotten
      else if closing (hb_buses h ! i) then Closed else Reading)"

definition pc_view :: "hub_buses \<Rightarrow> hub_pc" where
  "pc_view h =
     (case hb_pc h of
        RFree \<Rightarrow> HubFree
      | RTest i e \<Rightarrow> HubAt i e
      | RCall i e \<Rightarrow> HubAt i e
      | RWait i e \<Rightarrow>
          (case b_pubs (hb_buses h ! i) 0 of PReturned _ \<Rightarrow> HubAt (Suc i) e | _ \<Rightarrow> HubAt i e))"

definition hub_view :: "hub_buses \<Rightarrow> hub" where
  "hub_view h = \<lparr>hub_subs = map (sub_view h) [0..<length (hb_buses h)], hub_pc = pc_view h,
     hub_log = hb_log h\<rparr>"

lemma closing_pub_closed: "bus_inv b \<Longrightarrow> b_pub_closed b \<Longrightarrow> closing b"
  by (auto simp: bus_inv_def closing_def)

lemma hub_view_simps [simp]:
  "length (hub_subs (hub_view h)) = length (hb_buses h)"
  "i < length (hb_buses h) \<Longrightarrow> hub_subs (hub_view h) ! i = sub_view h i"
  "hub_pc (hub_view h) = pc_view h" "hub_log (hub_view h) = hb_log h"
  by (simp_all add: hub_view_def)

lemma hub_view_eqI:
  assumes "length (hb_buses h) = length (hub_subs g)" and "pc_view h = hub_pc g" and "hb_log h = hub_log g"
    and "\<And>i. i < length (hub_subs g) \<Longrightarrow> sub_view h i = hub_subs g ! i"
  shows "hub_view h = g"
  using assms by (cases g) (auto simp: hub_view_def intro!: nth_equalityI)

lemma closing_publish [simp]:
  "closing (begin_publish evt b) = closing b" "closing (end_publish b) = closing b"
  by (simp_all add: closing_def publish_defs)

lemma view_skips:
  assumes "buses_inv h" and "i < length (hb_buses h)" and "closing (hb_buses h ! i)" and "pc_view h = HubAt i evt"
    and "hub_view h' = next_publisher i evt False (hub_view h)"
  shows "hub_step (hub_view h) (hub_view h')"
proof -
  have "sub_view h i = Closed" using assms(1,2,3) by (auto simp: sub_view_def buses_inv_def closing_def)
  then show ?thesis unfolding assms(5) using assms(2,4) by (intro hub_step.skip_closed) simp_all
qed

text \<open>The step of the hub, if any, that a step of the hub with its subscriptions amounts to.\<close>

lemma view_bus_moves:
  assumes inv: "buses_inv h" and i: "i < length (hb_buses h)"
    and bus: "bus_step (hb_buses h ! i) b'" "pubs_kept (hb_buses h ! i) b'"
    and owner: "i \<in> hb_forgotten h \<Longrightarrow> b_sub b' = b_sub (hb_buses h ! i)"
    and h': "h' = h\<lparr>hb_buses := (hb_buses h)[i := b'], hb_log := hb_log h @ delivered i (hb_buses h ! i) b'\<rparr>"
  shows "hub_step (hub_view h) (hub_view h') \<or> hub_view h' = hub_view h"
proof -
  let ?b = "hb_buses h ! i"
  have b: "bus_inv ?b" "\<And>j. j \<noteq> 0 \<Longrightarrow> b_pubs ?b j = PIdle" "at_work (hb_pc h) i (b_pubs ?b 0)"
    using inv i by (auto simp: buses_inv_def)
  have at: "pc_view h = HubAt i e \<and> hb_pc h = RWait i e" if "b_pubs ?b 0 = PSelect e" for e
    using b(3) that by (auto simp: at_work_def pc_view_def)
  from bus b(1,2) show ?thesis
  proof (rule own_step_cases)
    assume "b_pubs b' = b_pubs ?b" "b_received b' = b_received ?b" "closing b' = closing ?b"
    then show ?thesis unfolding h' using i
      by (intro disjI2 hub_view_eqI)
        (simp_all add: pc_view_def sub_view_def nth_list_update delivered_def split: round_pc.splits)
  next
    assume c: "b_pubs b' = b_pubs ?b" "b_received b' = b_received ?b" "b_sub ?b = SOpen" "b_sub b' = SSignal"
    then have "i \<notin> hb_forgotten h" using owner by auto
    with c i have "hub_view h' = (hub_view h)\<lparr>hub_subs := (hub_subs (hub_view h))[i := Closed]\<rparr>"
      unfolding h' by (intro hub_view_eqI)
        (auto simp: pc_view_def sub_view_def nth_list_update delivered_def closing_def split: round_pc.splits)
    moreover have "hub_subs (hub_view h) ! i = Reading"
      using c i \<open>i \<notin> hb_forgotten h\<close> by (simp add: sub_view_def closing_def)
    ultimately show ?thesis using i hub_step.close_sub [of i "hub_view h"] by simp
  next
    fix e
    assume c: "b_pubs ?b 0 = PSelect e" "b_pubs b' = (b_pubs ?b)(0 := PReturned True)"
      "b_received b' = b_received ?b @ [e]" "b_sub ?b = SNext" "b_sub b' = SOpen"
    then have "i \<notin> hb_forgotten h" using owner by auto
    with c i at [OF c(1)] have "hub_view h' = next_publisher i e True (hub_view h)"
      unfolding h' by (intro hub_view_eqI)
        (auto simp: pc_view_def sub_view_def nth_list_update delivered_def closing_def)
    moreover have "hub_subs (hub_view h) ! i = Reading"
      using c i \<open>i \<notin> hb_forgotten h\<close> by (simp add: sub_view_def closing_def)
    ultimately show ?thesis using i at [OF c(1)] hub_step.deliver [of "hub_view h" i e] by simp
  next
    fix e
    assume c: "b_pubs ?b 0 = PSelect e" "b_pubs b' = (b_pubs ?b)(0 := PReturned False)"
      "b_received b' = b_received ?b" "closing ?b" "closing b'"
    with i at [OF c(1)] have "hub_view h' = next_publisher i e False (hub_view h)"
      unfolding h' by (intro hub_view_eqI) (auto simp: pc_view_def sub_view_def nth_list_update delivered_def)
    then show ?thesis using view_skips [OF inv i c(4)] at [OF c(1)] by simp
  qed
qed

lemma hub_view_step:
  assumes "buses_step h h'" and inv: "buses_inv h"
  shows "hub_step (hub_view h) (hub_view h') \<or> hub_view h' = hub_view h"
  using assms(1)
proof cases
  case new_subscription
  then have "hub_view h' = subscribeToEvents (hub_view h)"
    using inv by (intro hub_view_eqI)
      (auto simp: pc_view_def nth_append less_Suc_eq sub_view_def bus_inv_new buses_inv_def)
  moreover have "hub_pc (hub_view h) = HubFree" using new_subscription by (simp add: pc_view_def)
  ultimately show ?thesis using hub_step.subscribe by metis
next
  case (take_event evt)
  then have "hub_view h' = joinEvents_publish evt (hub_view h)"
    by (intro hub_view_eqI) (simp_all add: pc_view_def sub_view_def)
  moreover have "hub_pc (hub_view h) = HubFree" using take_event by (simp add: pc_view_def)
  ultimately show ?thesis using hub_step.publish by metis
next
  case (is_closed i evt)
  then have "hub_view h' = next_publisher i evt False (hub_view h)"
    by (intro hub_view_eqI) (simp_all add: pc_view_def sub_view_def)
  moreover have "closing (hb_buses h ! i)"
    using is_closed inv by (auto simp: buses_inv_def intro: closing_pub_closed)
  ultimately show ?thesis using view_skips [OF inv is_closed(4)] is_closed by (simp add: pc_view_def)
next
  case (is_open i evt)
  then show ?thesis by (intro disjI2 hub_view_eqI) (simp_all add: pc_view_def sub_view_def)
next
  case (call_publish i evt)
  then have i: "i < length (hb_buses h)" using inv by (simp add: buses_inv_def position_ok_def)
  show ?thesis
  proof (cases "b_pub_closed (hb_buses h ! i)")
    case True
    then have "hub_view h' = next_publisher i evt False (hub_view h)"
      using call_publish i by (intro hub_view_eqI)
        (simp_all add: pc_view_def sub_view_def nth_list_update publish_defs closing_def)
    moreover have "closing (hb_buses h ! i)"
      using True i inv by (auto simp: buses_inv_def intro: closing_pub_closed)
    ultimately show ?thesis using view_skips [OF inv i] call_publish by (simp add: pc_view_def)
  next
    case False
    then show ?thesis using call_publish i
      by (intro disjI2 hub_view_eqI)
        (simp_all add: pc_view_def sub_view_def nth_list_update publish_defs closing_def)
  qed
next
  case (publish_returns i evt r)
  then show ?thesis using inv
    by (intro disjI2 hub_view_eqI)
      (auto simp: pc_view_def sub_view_def nth_list_update buses_inv_def position_ok_def)
next
  case (release i evt)
  then have "hub_view h' = (hub_view h)\<lparr>hub_pc := HubFree\<rparr>"
    by (intro hub_view_eqI) (simp_all add: pc_view_def sub_view_def)
  moreover have "hub_pc (hub_view h) = HubAt i evt" "i = length (hub_subs (hub_view h))"
    using release by (simp_all add: pc_view_def)
  ultimately show ?thesis using hub_step.unlock by metis
next
  case (bus_moves i b')
  then show ?thesis by (intro view_bus_moves [OF inv])
next
  case (owner_leaves i)
  then have "hub_view h' = (hub_view h)\<lparr>hub_subs := (hub_subs (hub_view h))[i := Forgotten]\<rparr>"
    by (intro hub_view_eqI) (auto simp: pc_view_def sub_view_def nth_list_update split: round_pc.splits)
  moreover have "hub_subs (hub_view h) ! i = Reading"
    using owner_leaves by (simp add: sub_view_def closing_def)
  ultimately show ?thesis using owner_leaves hub_step.forget [of i "hub_view h"] by simp
qed

interpretation buses: simulation "(=) init_buses" buses_step buses_inv hub_view "(=) init_hub" hub_step
proof unfold_locales
  show "init_buses = h \<Longrightarrow> init_hub = hub_view h" for h
    by (auto simp: hub_view_def init_buses_def init_hub_def pc_view_def)
qed (use buses_inv_init buses_step_inv hub_view_step in blast)+

section \<open>Properties\<close>

text \<open>C21: The hub with its real subscriptions, each with its own close handler, its own channels and
  several goroutines at work on them, behaves as the hub that only knows whether a subscriber reads,
  was forgotten or is closed: whatever the real one can reach, its view is reachable there.  The
  properties of the hub hold of the real one.\<close>

theorem hub_buses_refine_hub:
  "hub_view ` {h. buses_reachable h} \<subseteq> {g. hub_reachable g}"
  using buses.simulated by auto

text \<open>The hub in a call of \<^verbatim>\<open>Publish\<close> on a subscription whose owner left.\<close>

definition abandoned :: "hub_buses \<Rightarrow> nat \<Rightarrow> event \<Rightarrow> bool" where
  "abandoned h i evt \<longleftrightarrow>
     hb_pc h = RWait i evt \<and> i \<in> hb_forgotten h \<and> b_pubs (hb_buses h ! i) 0 = PSelect evt"

lemma abandoned_step:
  assumes "buses_step h h'" and inv: "buses_inv h" and ab: "abandoned h i evt"
  shows "abandoned h' i evt"
  using assms(1)
proof cases
  case (bus_moves j b')
  show ?thesis
  proof (cases "j = i")
    case True
    have open_sub: "b_sub (hb_buses h ! i) = SOpen" using inv ab bus_moves True by (auto simp: abandoned_def buses_inv_def)
    then have "b_sub b' = SOpen" using bus_moves True ab by (simp add: abandoned_def)
    have b: "bus_inv (hb_buses h ! i)" "\<And>j. j \<noteq> 0 \<Longrightarrow> b_pubs (hb_buses h ! i) j = PIdle"
      using inv bus_moves True by (auto simp: buses_inv_def)
    have "b_pubs b' 0 = b_pubs (hb_buses h ! i) 0"
      using bus_moves(4,5) [unfolded True] b
      by (rule own_step_cases) (use open_sub \<open>b_sub b' = SOpen\<close> in \<open>simp_all add: closing_def\<close>)
    then show ?thesis using bus_moves True ab by (simp add: abandoned_def)
  qed (use bus_moves ab in \<open>simp add: abandoned_def\<close>)
qed (use ab in \<open>auto simp: abandoned_def\<close>)

lemma abandoned_run:
  "buses_step\<^sup>*\<^sup>* h h' \<Longrightarrow> buses_inv h \<Longrightarrow> abandoned h i evt \<Longrightarrow> abandoned h' i evt \<and> buses_inv h'"
  by (induction rule: rtranclp_induct) (auto dest: abandoned_step buses_step_inv)

lemma abandoned_stuck: "abandoned h i evt \<Longrightarrow> buses_inv h \<Longrightarrow> hub_stuck (hub_view h) i evt"
  by (auto simp: abandoned_def hub_stuck_def buses_inv_def position_ok_def pc_view_def sub_view_def)

text \<open>C22: With the real subscriptions, too, one abandoned subscription stops the node's events: once the
  hub waits in \<^verbatim>\<open>Publish\<close> for a subscription whose owner returned without closing it, the call does
  not return and no event reaches anyone any more, whatever the other subscribers, the close
  handlers and the owners do.\<close>

theorem abandoned_subscription_blocks:
  assumes "buses_reachable h" and "abandoned h i evt" and "buses_step\<^sup>*\<^sup>* h h'"
  shows "hb_log h' = hb_log h \<and> hb_pc h' = RWait i evt \<and> b_pubs (hb_buses h' ! i) 0 = PSelect evt \<and>
    length (hb_buses h') = length (hb_buses h)"
proof -
  have inv: "buses_inv h" by (rule buses.invariant [OF assms(1)])
  with buses.simulated_run [OF assms(3)] have "hub_step\<^sup>*\<^sup>* (hub_view h) (hub_view h')" by simp
  from hub_stuck_run [OF this abandoned_stuck [OF assms(2) inv]] abandoned_run [OF assms(3) inv assms(2)]
  show ?thesis by (simp add: abandoned_def)
qed

section \<open>Witnesses\<close>

lemma one_subscription:
  "\<exists>h. buses_reachable h \<and> abandoned h 0 evt \<and> hb_log h = [] \<and> length (hb_buses h) = 1"
proof -
  let ?a = "init_buses\<lparr>hb_buses := [NewSubscription]\<rparr>"
  let ?b = "?a\<lparr>hb_forgotten := {0}\<rparr>"
  let ?c = "?b\<lparr>hb_pc := RTest 0 evt\<rparr>"
  let ?d = "?c\<lparr>hb_pc := RCall 0 evt\<rparr>"
  let ?e = "?d\<lparr>hb_pc := RWait 0 evt, hb_buses := (hb_buses ?d)[0 := begin_publish evt (hb_buses ?d ! 0)]\<rparr>"
  note ds = init_buses_def alive_def NewSubscription_def
  have "buses_step init_buses ?a" using new_subscription [of init_buses] by (simp add: ds)
  moreover have "buses_step ?a ?b" using owner_leaves [of ?a 0] by (simp add: ds)
  moreover have "buses_step ?b ?c" using take_event [of ?b] by (simp add: ds)
  moreover have "buses_step ?c ?d" using is_open [of ?c 0] by (simp add: ds)
  moreover have "buses_step ?d ?e" using call_publish [of ?d 0] by (simp add: ds)
  moreover have "buses_reachable init_buses" by (rule reach_init) simp
  ultimately have "buses_reachable ?e" by (meson reach_step)
  moreover have "abandoned ?e 0 evt" by (simp add: abandoned_def ds begin_publish_def Publish_enter_def)
  moreover have "hb_log ?e = []" "length (hb_buses ?e) = 1" by (simp_all add: ds)
  ultimately show ?thesis by blast
qed

theorem abandoned_subscription_blocks_witness:
  "\<exists>h. buses_reachable h \<and> {h'. buses_step\<^sup>*\<^sup>* h h'} \<subseteq> {h'. hb_log h' = [] \<and> length (hb_buses h') = 1}"
proof -
  obtain h where h: "buses_reachable h" "abandoned h 0 (RetrievalRequestEvt ''a'')" "hb_log h = []" "length (hb_buses h) = 1"
    using one_subscription by blast
  with abandoned_subscription_blocks [OF h(1,2)] show ?thesis by auto
qed

end
