(* ===== verification/ContractManager.thy ===== *)
theory ContractManager
  imports Connector
begin

text \<open>
  The contract manager (\<^verbatim>\<open>node/contract_manager.go\<close>): preparing a contract, choosing candidates from
  the event stream, and collecting the data of one's own contracts.  \<open>SeekStorage\<close> models the
  concurrent search for custodians on top of it.
\<close>

section \<open>Preparing a contract\<close>

text \<open>
  \<open>None\<close> is an error.  On the encrypted path the error of \<^verbatim>\<open>Ipfser\<close> goes to the \<^verbatim>\<open>err\<close> declared inside
  the branch, so the test behind it sees the outer nil.
\<close>

definition new_contract ::
  "node_env \<Rightarrow> gostring \<times> uint32 \<Rightarrow> int64 \<Rightarrow> uint32 \<Rightarrow> uint32 \<Rightarrow> Contract"
where
  "new_contract env upload expires cardinality datatype =
     \<lparr>c_OwnerID = n_ID env, c_Size = snd upload, c_Cid = fst upload, c_Expires = time_Unix expires,
      c_Cardinality = cardinality, c_Datatype = datatype\<rparr>"

definition PrepareContract ::
  "node_env \<Rightarrow> gostring \<Rightarrow> int64 \<Rightarrow> uint32 \<Rightarrow> uint32 \<Rightarrow> gostring list \<Rightarrow> Contract option \<times> gostring list"
where
  "PrepareContract env filepath expires cardinality datatype h =
     (if encrypted datatype
      then (case n_getPrivKey env of
              None \<Rightarrow> (None, h)
            | Some pk \<Rightarrow>
                (case Ipfser (n_ipfs env) datatype filepath pk h of
                   (upload, h') \<Rightarrow>
                     (Some (new_contract env (case upload of None \<Rightarrow> ([], 0) | Some u \<Rightarrow> u)
                              expires cardinality datatype), h')))
      else (case Ipfser (n_ipfs env) datatype filepath [] h of
              (None, h') \<Rightarrow> (None, h')
            | (Some u, h') \<Rightarrow> (Some (new_contract env u expires cardinality datatype), h')))"


section \<open>Slots\<close>

text \<open>
  A slot is 0 when its request was declined (or none was made), 1 when accepted, 2 while waiting.
  One round of \<^verbatim>\<open>getSlot\<close>; when it finds only waiting slots the code sleeps and starts over.
\<close>

datatype slot = Slot nat | AllDone | Waiting

fun scan_slots :: "nat \<Rightarrow> bool \<Rightarrow> int list \<Rightarrow> slot" where
  "scan_slots i allDone [] = (if allDone then AllDone else Waiting)"
| "scan_slots i allDone (a # acks) =
     (let allDone' = (if a \<noteq> 1 then False else allDone)
      in if a = 0 then Slot i else scan_slots (Suc i) allDone' acks)"

definition getSlot :: "int list \<Rightarrow> slot \<times> int list" where
  "getSlot acks =
     (case scan_slots 0 True acks of
        Slot i \<Rightarrow> (Slot i, acks[i := 2])
      | AllDone \<Rightarrow> (AllDone, acks)
      | Waiting \<Rightarrow> (Waiting, acks))"

lemma scan_slots_eq:
  "scan_slots i d acks =
     (if 0 \<in> set acks then Slot (i + length (takeWhile (\<lambda>a. a \<noteq> 0) acks))
      else if d \<and> (\<forall>a\<in>set acks. a = 1) then AllDone else Waiting)"
  by (induction i d acks rule: scan_slots.induct) (auto simp: Let_def)

lemma getSlot_Slot:
  "getSlot acks = (Slot i, acks') \<Longrightarrow> i < length acks \<and> acks ! i = 0 \<and> acks' = acks[i := 2]"
proof -
  assume g: "getSlot acks = (Slot i, acks')"
  let ?t = "takeWhile (\<lambda>a. a \<noteq> 0) acks"
  have z: "0 \<in> set acks" "i = length ?t" "acks' = acks[i := 2]"
    using g by (auto simp: getSlot_def scan_slots_eq split: if_splits)
  then have "length ?t < length acks"
    by (metis (full_types) takeWhile_eq_all_conv length_takeWhile_le le_neq_implies_less
        takeWhile_nth nth_equalityI)
  with z nth_length_takeWhile [of "\<lambda>a. a \<noteq> 0" acks] show ?thesis by simp
qed

lemma getSlot_AllDone: "getSlot acks = (AllDone, acks') \<Longrightarrow> acks' = acks \<and> (\<forall>a\<in>set acks. a = 1)"
  by (auto simp: getSlot_def scan_slots_eq split: if_splits)

section \<open>Candidates\<close>

text \<open>
  One event in \<^verbatim>\<open>getCandidates\<close>: the address to offer, if any, and the addresses not to look at
  again.  An address that is handed over is added later, by the hand-over.
\<close>

definition candidate ::
  "gostring \<Rightarrow> gostring set \<Rightarrow> event \<Rightarrow> panic + gostring option \<times> gostring set"
where
  "candidate candType tried evt =
     (let e = Event_Marshal evt
      in if e_Type e = Event_OFFER_PUB \<and> candType = ''offer'' then
           (case e_OfferPub e of
              None \<Rightarrow> Inl NilDereference
            | Some p \<Rightarrow>
                (case eo_Offer p of
                   None \<Rightarrow> Inl NilDereference
                 | Some x \<Rightarrow>
                     (let addr = ao_Multiaddr x
                      in if addr \<in> tried then Inr (None, tried) else Inr (Some addr, tried))))
         else if e_Type e = Event_CONTRACT_PUB \<and> candType \<noteq> ''offer'' then
           (case e_ContractPub e of
              None \<Rightarrow> Inl NilDereference
            | Some p \<Rightarrow>
                (let addr = ec_Multiaddr p
                 in if addr \<in> tried then Inr (None, tried)
                    else if list_ex (\<lambda>c. ac_OwnerId c = candType) (ec_Contracts p)
                    then Inr (Some addr, tried)
                    else Inr (None, insert addr tried)))
         else Inr (None, tried))"

lemma candidate_eq:
  "candidate candType tried evt =
     (case evt of
        OfferPub x \<Rightarrow>
          if candType = ''offer'' \<and> o_Multiaddr x \<notin> tried then Inr (Some (o_Multiaddr x), tried)
          else Inr (None, tried)
      | ContractPub addr cs \<Rightarrow>
          if candType = ''offer'' \<or> addr \<in> tried then Inr (None, tried)
          else if candType \<in> c_OwnerID ` set cs then Inr (Some addr, tried)
          else Inr (None, insert addr tried)
      | _ \<Rightarrow> Inr (None, tried))"
  by (cases evt)
    (auto simp: candidate_def Event_Marshal_defs ApiContract_of_def Let_def list_ex_iff image_iff)

lemma candidate_new:
  "candidate candType tried evt = Inr (Some addr, tried') \<Longrightarrow> addr \<notin> tried \<and> tried' = tried"
  "candidate candType tried evt = Inr (None, tried') \<Longrightarrow> tried \<subseteq> tried'"
  by (auto simp: candidate_eq split: event.splits if_splits)

section \<open>Collecting one's own data\<close>

text \<open>
  The listening loop of \<^verbatim>\<open>RetrieveDataV2\<close>.  Every element of the list is one round: the clock at the
  deadline test, and what \<^verbatim>\<open>Next\<close> returns if the round gets there (\<open>None\<close> for an error).  When the
  list ends before a late round, \<^verbatim>\<open>Next\<close> blocks forever.
\<close>

fun own_contracts :: "gostring \<Rightarrow> gostring \<Rightarrow> ApiContract list \<Rightarrow> ApiContract list" where
  "own_contracts ID cid [] = []"
| "own_contracts ID cid (c # cs) =
     (if ac_OwnerId c = ID
      then (if cid \<noteq> [] \<and> ac_Cid c \<noteq> cid then own_contracts ID cid cs
            else c # own_contracts ID cid cs)
      else own_contracts ID cid cs)"

fun listen ::
  "gotime \<Rightarrow> gostring \<Rightarrow> gostring \<Rightarrow> gostring set \<Rightarrow> ApiContract list \<Rightarrow> (gotime \<times> event option) list \<Rightarrow>
   (panic + ApiContract list) option"
where
  "listen deadline ID cid tried found [] = None"
| "listen deadline ID cid tried found ((now, evt) # rounds) =
     (if Before deadline now then Some (Inr found)
      else (case evt of
              None \<Rightarrow> listen deadline ID cid tried found rounds
            | Some ev \<Rightarrow>
                (let e = Event_Marshal ev
                 in if e_Type e \<noteq> Event_CONTRACT_PUB
                    then listen deadline ID cid tried found rounds
                    else (case e_ContractPub e of
                            None \<Rightarrow> Some (Inl NilDereference)
                          | Some p \<Rightarrow>
                              if ec_Multiaddr p \<in> tried
                              then listen deadline ID cid tried found rounds
                              else listen deadline ID cid (insert (ec_Multiaddr p) tried)
                                     (found @ own_contracts ID cid (ec_Contracts p)) rounds))))"

text \<open>The download loop: \<open>False\<close> when the private key is needed and missing.\<close>

fun dei_all ::
  "node_env \<Rightarrow> bool \<Rightarrow> ApiContract list \<Rightarrow> gostring list \<Rightarrow> bool \<times> gostring list"
where
  "dei_all env deindex [] h = (True, h)"
| "dei_all env deindex (c # cs) h =
     (if encrypted (ac_Datatype c)
      then (case n_getPrivKey env of
              None \<Rightarrow> (False, h)
            | Some pk \<Rightarrow> dei_all env deindex cs (Dei (n_ipfs env) (ac_Datatype c) (ac_Cid c) pk deindex h))
      else dei_all env deindex cs (Dei (n_ipfs env) (ac_Datatype c) (ac_Cid c) [] deindex h))"

text \<open>
  \<^verbatim>\<open>RetrieveDataV2\<close>: the error flag (\<open>True\<close> is nil), the cids, the commands run, and whether the
  subscription was closed; \<open>None\<close> when it never returns.
\<close>

definition RetrieveDataV2 ::
  "node_env \<Rightarrow> uint32 \<Rightarrow> gostring \<Rightarrow> bool \<Rightarrow> gotime \<Rightarrow> (gotime \<times> event option) list \<Rightarrow> gostring list \<Rightarrow>
   (panic + bool \<times> gostring list \<times> gostring list \<times> bool) option"
where
  "RetrieveDataV2 env datatype cid deindex timeInit rounds h =
     (if datatype \<noteq> 42 \<and> cid \<noteq> [] then
        (if encrypted datatype
         then (case n_getPrivKey env of
                 None \<Rightarrow> Some (Inr (False, [cid], h, False))
               | Some pk \<Rightarrow> Some (Inr (True, [cid], Subdei (n_ipfs env) datatype cid pk deindex h, False)))
         else Some (Inr (True, [cid], Subdei (n_ipfs env) datatype cid [] deindex h, False)))
      else (case listen (add_secs timeInit 60) (n_ID env) cid {} [] rounds of
              None \<Rightarrow> None
            | Some (Inl p) \<Rightarrow> Some (Inl p)
            | Some (Inr found) \<Rightarrow>
                (case dei_all env deindex found h of
                   (ok, h') \<Rightarrow> Some (Inr (ok, map ac_Cid found, h', True)))))"

text \<open>The publications heard before the deadline, and of these the first of every publisher.\<close>

definition heard :: "gotime \<Rightarrow> (gotime \<times> event option) list \<Rightarrow> (gostring \<times> Contract list) list" where
  "heard deadline rounds =
     concat (map (\<lambda>r. case snd r of Some (ContractPub addr cs) \<Rightarrow> [(addr, cs)] | _ \<Rightarrow> [])
       (takeWhile (\<lambda>r. \<not> Before deadline (fst r)) rounds))"

fun first_pubs :: "gostring set \<Rightarrow> (gostring \<times> Contract list) list \<Rightarrow> (gostring \<times> Contract list) list" where
  "first_pubs tried [] = []"
| "first_pubs tried ((addr, cs) # pubs) =
     (if addr \<in> tried then first_pubs tried pubs
      else (addr, cs) # first_pubs (insert addr tried) pubs)"

definition mine :: "gostring \<Rightarrow> gostring \<Rightarrow> Contract list \<Rightarrow> Contract list" where
  "mine ID cid cs = filter (\<lambda>c. c_OwnerID c = ID \<and> (cid = [] \<or> c_Cid c = cid)) cs"

lemma heard_simps:
  "Before deadline now \<Longrightarrow> heard deadline ((now, evt) # rounds) = []"
  "\<not> Before deadline now \<Longrightarrow> heard deadline ((now, None) # rounds) = heard deadline rounds"
  "\<not> Before deadline now \<Longrightarrow> heard deadline ((now, Some e) # rounds) =
     (case e of ContractPub addr cs \<Rightarrow> (addr, cs) # heard deadline rounds | _ \<Rightarrow> heard deadline rounds)"
  by (simp_all add: heard_def split: event.splits)

lemma own_contracts_map: "own_contracts ID cid (map ApiContract_of cs) = map ApiContract_of (mine ID cid cs)"
  by (induction cs) (simp_all add: mine_def ApiContract_of_def)

lemma listen_eq:
  "listen deadline ID cid tried found rounds =
     (if list_ex (\<lambda>r. Before deadline (fst r)) rounds
      then Some (Inr (found @ map ApiContract_of
             (concat (map (\<lambda>p. mine ID cid (snd p)) (first_pubs tried (heard deadline rounds))))))
      else None)"
proof (induction rounds arbitrary: tried found)
  case (Cons r rounds)
  obtain now evt where r: "r = (now, evt)" by fastforce
  show ?case
  proof (cases "Before deadline now")
    case True
    then show ?thesis by (simp add: r heard_simps)
  next
    case False
    then show ?thesis
      using Cons.IH by (cases evt) (auto simp: r heard_simps Event_Marshal_defs own_contracts_map
          split: event.splits)
  qed
qed simp

text \<open>The passphrase a datatype needs can be had.\<close>

definition key_at_hand :: "node_env \<Rightarrow> uint32 \<Rightarrow> bool" where
  "key_at_hand env dt = (if encrypted dt then n_getPrivKey env \<noteq> None else True)"

text \<open>C34: Listening for one's own data returns only after a publication arrives past the deadline; then
  the cids are those of one's own contracts (with the wanted cid, if one is given) in the first
  publication of every publisher heard before the deadline, in order: what a publisher adds in a
  later publication is not found.  A search for specific content returns at once and leaves its
  subscription open.\<close>

theorem retrieve_collects:
  "RetrieveDataV2 env dt cid deindex timeInit rounds h =
     (if dt \<noteq> 42 \<and> cid \<noteq> [] then
        Some (Inr (key_at_hand env dt, [cid],
          (if encrypted dt \<and> n_getPrivKey env = None then h
           else Subdei (n_ipfs env) dt cid
                  (if encrypted dt then the (n_getPrivKey env) else []) deindex h), False))
      else if list_ex (\<lambda>r. Before (add_secs timeInit 60) (fst r)) rounds then
        (let found = concat (map (\<lambda>p. mine (n_ID env) cid (snd p))
               (first_pubs {} (heard (add_secs timeInit 60) rounds)))
         in case dei_all env deindex (map ApiContract_of found) h of
              (ok, h') \<Rightarrow> Some (Inr (ok, map c_Cid found, h', True)))
      else None)"
proof -
  have "map ac_Cid (map ApiContract_of cs) = map c_Cid cs" for cs
    by (simp add: ApiContract_of_def)
  then show ?thesis
    by (auto simp: RetrieveDataV2_def listen_eq key_at_hand_def Let_def split: option.splits prod.splits)
qed

text \<open>The downloads of one search: with a readable key, or when no contract is encrypted, every
  found contract is downloaded once, in order; otherwise the search fails at the first encrypted
  contract, after the downloads before it.\<close>

theorem downloads_exact:
  fixes env deindex
  defines "cmd \<equiv> \<lambda>c. Dei_cmd (ac_Datatype c) (ac_Cid c)
    (if encrypted (ac_Datatype c) then case n_getPrivKey env of None \<Rightarrow> [] | Some pk \<Rightarrow> pk else []) deindex"
  defines "usable \<equiv> \<lambda>c. key_at_hand env (ac_Datatype c)"
  shows "dei_all env deindex cs h = (list_all usable cs, h @ map cmd (takeWhile usable cs))"
proof (induction cs arbitrary: h)
  case (Cons c cs)
  have "Dei (n_ipfs env) (ac_Datatype c) (ac_Cid c) pass deindex h =
      h @ [Dei_cmd (ac_Datatype c) (ac_Cid c) pass deindex]" for pass
    by (simp add: Dei_def executeCommand_def)
  with Cons.IH show ?case by (auto simp: cmd_def usable_def key_at_hand_def split: option.splits)
qed simp

end
