(* ===== verification/SeekStorage.thy ===== *)
theory SeekStorage
  imports ContractManager
begin

text \<open>
  The search for custodians (\<^verbatim>\<open>SeekStorage\<close>) and for a node that serves one's data (\<^verbatim>\<open>RetrieveData\<close>),
  \<^verbatim>\<open>node/contract_manager.go\<close>: the main loop with its slots, the goroutine \<^verbatim>\<open>getCandidates\<close>, and one
  goroutine running \<^verbatim>\<open>Send\<close> per request on its way.  They meet on two unbuffered channels and on the
  array of slots.  Slots are written by one goroutine at a time: the main loop while the slot is 0,
  the sender while it is 2; a 1 is final, so one round over all slots may count as one step.
\<close>

section \<open>State\<close>

datatype main_pc = MSlot | MAddr nat | MDone
datatype cand_pc = GNext | GOffer gostring | GClosed

record seek =
  sk_acks :: "int list"
  sk_main :: main_pc
  sk_cand :: cand_pc
  sk_tried :: "gostring set"
  sk_sends :: "nat \<Rightarrow> gostring option"      \<comment> \<open>per slot, the address its \<^verbatim>\<open>Send\<close> is talking to\<close>
  sk_response :: response_cell
  sk_crashed :: bool
  sk_asked :: "gostring list"              \<comment> \<open>history: addresses in the order they were asked\<close>
  sk_accepted :: "nat \<Rightarrow> gostring option"   \<comment> \<open>history: who set the slot to 1\<close>

definition init_seek :: "nat \<Rightarrow> response_cell \<Rightarrow> seek" where
  "init_seek n resp = \<lparr>sk_acks = replicate n 0, sk_main = MSlot, sk_cand = GNext, sk_tried = {},
     sk_sends = (\<lambda>_. None), sk_response = resp, sk_crashed = False, sk_asked = [],
     sk_accepted = (\<lambda>_. None)\<rparr>"

text \<open>\<^verbatim>\<open>SeekStorage\<close> opens one slot per copy of the contract, \<^verbatim>\<open>RetrieveData\<close> a single one.\<close>

definition SeekStorage_init :: "Contract \<Rightarrow> seek" where
  "SeekStorage_init c =
     init_seek (unat (c_Cardinality c)) (StorageCell \<lparr>SP_Multiaddr = [], SP_Done = False\<rparr>)"

definition SeekStorage_request :: "node_env \<Rightarrow> Contract \<Rightarrow> message" where
  "SeekStorage_request env c = MStorageRequest \<lparr>SQ_Multiaddr = n_Multiaddr env, SQ_Contract = c\<rparr>"

definition RetrieveData_init :: seek where
  "RetrieveData_init = init_seek 1 (RetrievalCell \<lparr>RP_IpfsLinks = []\<rparr>)"

section \<open>Steps\<close>

definition hand_over :: "nat \<Rightarrow> gostring \<Rightarrow> seek \<Rightarrow> seek" where
  "hand_over i addr s = s\<lparr>sk_main := MSlot, sk_cand := GNext, sk_tried := insert addr (sk_tried s),
     sk_sends := (sk_sends s)(i \<mapsto> addr), sk_asked := sk_asked s @ [addr]\<rparr>"

definition finish_send :: "nat \<Rightarrow> gostring \<Rightarrow> int \<Rightarrow> response_cell \<Rightarrow> seek \<Rightarrow> seek" where
  "finish_send i addr ack resp s = s\<lparr>sk_acks := (sk_acks s)[i := ack],
     sk_sends := (sk_sends s)(i := None), sk_response := resp,
     sk_accepted := (if ack = 1 then (sk_accepted s)(i \<mapsto> addr) else sk_accepted s)\<rparr>"

inductive seek_step :: "gostring \<Rightarrow> message \<Rightarrow> seek \<Rightarrow> seek \<Rightarrow> bool" for candType request where
  slot_free: "\<not> sk_crashed s \<Longrightarrow> sk_main s = MSlot \<Longrightarrow> getSlot (sk_acks s) = (Slot i, acks) \<Longrightarrow>
    seek_step candType request s (s\<lparr>sk_acks := acks, sk_main := MAddr i\<rparr>)"
| slots_done: "\<not> sk_crashed s \<Longrightarrow> sk_main s = MSlot \<Longrightarrow> getSlot (sk_acks s) = (AllDone, acks) \<Longrightarrow>
    seek_step candType request s (s\<lparr>sk_main := MDone\<rparr>)"
| hear_nothing: "\<not> sk_crashed s \<Longrightarrow> sk_cand s = GNext \<Longrightarrow>
    candidate candType (sk_tried s) evt = Inr (None, tried) \<Longrightarrow>
    seek_step candType request s (s\<lparr>sk_tried := tried\<rparr>)"
| hear_candidate: "\<not> sk_crashed s \<Longrightarrow> sk_cand s = GNext \<Longrightarrow>
    candidate candType (sk_tried s) evt = Inr (Some addr, tried) \<Longrightarrow>
    seek_step candType request s (s\<lparr>sk_cand := GOffer addr, sk_tried := tried\<rparr>)"
| give_address: "\<not> sk_crashed s \<Longrightarrow> sk_main s = MAddr i \<Longrightarrow> sk_cand s = GOffer addr \<Longrightarrow>
    seek_step candType request s (hand_over i addr s)"
| close_search: "\<not> sk_crashed s \<Longrightarrow> sk_main s = MDone \<Longrightarrow> sk_cand s = GOffer addr \<Longrightarrow>
    seek_step candType request s (s\<lparr>sk_cand := GClosed\<rparr>)"
| send_returns: "\<not> sk_crashed s \<Longrightarrow> sk_sends s i = Some addr \<Longrightarrow>
    Send nt addr request (sk_acks s ! i) (sk_response s) = Inr (ack, resp, evs) \<Longrightarrow>
    seek_step candType request s (finish_send i addr ack resp s)"
| send_panics: "\<not> sk_crashed s \<Longrightarrow> sk_sends s i = Some addr \<Longrightarrow>
    Send nt addr request (sk_acks s ! i) (sk_response s) = Inl p \<Longrightarrow>
    seek_step candType request s (s\<lparr>sk_crashed := True\<rparr>)"

abbreviation seek_reachable :: "gostring \<Rightarrow> message \<Rightarrow> seek \<Rightarrow> seek \<Rightarrow> bool" where
  "seek_reachable candType request s0 \<equiv> reachable ((=) s0) (seek_step candType request)"

lemmas seek_defs = hand_over_def finish_send_def init_seek_def

section \<open>The invariant\<close>

text \<open>The address that is responsible for a slot: the one being asked, or the one that accepted.\<close>

definition holder :: "seek \<Rightarrow> nat \<Rightarrow> gostring option" where
  "holder s i = (case sk_sends s i of Some addr \<Rightarrow> Some addr | None \<Rightarrow> sk_accepted s i)"

definition slots_ok :: "nat \<Rightarrow> seek \<Rightarrow> bool" where
  "slots_ok n s \<longleftrightarrow>
     length (sk_acks s) = n \<and> set (sk_acks s) \<subseteq> {0, 1, 2} \<and>
     (\<forall>i. n \<le> i \<longrightarrow> sk_sends s i = None \<and> sk_accepted s i = None) \<and>
     (\<forall>i<n. sk_acks s ! i = 1 \<longleftrightarrow> sk_accepted s i \<noteq> None) \<and>
     (\<forall>i<n. sk_sends s i \<noteq> None \<longrightarrow> sk_acks s ! i = 2) \<and>
     (\<forall>i. sk_main s = MAddr i \<longrightarrow> i < n \<and> sk_acks s ! i = 2 \<and> sk_sends s i = None) \<and>
     (sk_main s = MDone \<longrightarrow> (\<forall>a\<in>set (sk_acks s). a = 1))"

definition asked_ok :: "seek \<Rightarrow> bool" where
  "asked_ok s \<longleftrightarrow>
     distinct (sk_asked s) \<and> set (sk_asked s) \<subseteq> sk_tried s \<and>
     (\<forall>addr. sk_cand s = GOffer addr \<longrightarrow> addr \<notin> set (sk_asked s)) \<and>
     (\<forall>i addr. holder s i = Some addr \<longrightarrow> addr \<in> set (sk_asked s)) \<and>
     (\<forall>i j addr. holder s i = Some addr \<longrightarrow> holder s j = Some addr \<longrightarrow> i = j)"

definition seek_inv :: "nat \<Rightarrow> seek \<Rightarrow> bool" where
  "seek_inv n s \<longleftrightarrow> slots_ok n s \<and> asked_ok s"

lemma Send_ack_range:
  "Send nt addr request 2 resp = Inr (ack, resp', evs) \<Longrightarrow> ack \<in> {0, 1, 2}"
  by (auto simp: Send_def unpack_def Let_def write_bytes_eq
      split: message.splits option.splits sum.splits response_cell.splits if_splits)

lemma holder_frame [simp]:
  "holder (s\<lparr>sk_acks := acks\<rparr>) = holder s" "holder (s\<lparr>sk_main := m\<rparr>) = holder s"
  "holder (s\<lparr>sk_cand := c\<rparr>) = holder s" "holder (s\<lparr>sk_tried := tried\<rparr>) = holder s"
  "holder (s\<lparr>sk_crashed := b\<rparr>) = holder s"
  by (auto simp: holder_def fun_eq_iff split: option.splits)

lemma slots_ok_step: "seek_step candType request s t \<Longrightarrow> slots_ok n s \<Longrightarrow> slots_ok n t"
proof (induction rule: seek_step.induct)
  case (slot_free s i acks)
  note g = getSlot_Slot [OF slot_free(3)]
  with slot_free have "set acks \<subseteq> {0, 1, 2}"
    by (auto simp: slots_ok_def dest!: set_update_subset_insert [THEN subsetD])
  with slot_free g show ?case by (auto simp: slots_ok_def nth_list_update)
next
  case (slots_done s acks)
  then show ?case using getSlot_AllDone [OF slots_done(3)] by (auto simp: slots_ok_def)
next
  case (send_returns s i addr nt ack resp evs)
  then have i: "i < n" "sk_acks s ! i = 2" "length (sk_acks s) = n"
    by (auto simp: slots_ok_def not_less) (metis not_less option.distinct(1))+
  then have ack: "ack \<in> {0, 1, 2}" using send_returns(3) Send_ack_range by metis
  then have "set ((sk_acks s)[i := ack]) \<subseteq> {0, 1, 2}"
    using send_returns(4) by (auto simp: slots_ok_def dest!: set_update_subset_insert [THEN subsetD])
  moreover have "sk_main s \<noteq> MDone"
  proof
    assume "sk_main s = MDone"
    with send_returns(4) i have "sk_acks s ! i = 1"
      unfolding slots_ok_def by (metis nth_mem)
    with i show False by simp
  qed
  ultimately show ?case
    using send_returns i ack
    by (auto simp: slots_ok_def finish_send_def nth_list_update)
qed (auto simp: slots_ok_def hand_over_def)

lemma asked_ok_step:
  "seek_step candType request s t \<Longrightarrow> slots_ok n s \<Longrightarrow> asked_ok s \<Longrightarrow> asked_ok t"
proof (induction rule: seek_step.induct)
  case (hear_nothing s evt tried)
  then show ?case
    using candidate_new(2) [OF hear_nothing(3)] by (auto simp: asked_ok_def)
next
  case (hear_candidate s evt addr tried)
  then show ?case
    using candidate_new(1) [OF hear_candidate(3)] by (auto simp: asked_ok_def)
next
  case (give_address s i addr)
  have new: "addr \<notin> set (sk_asked s)" and free: "sk_sends s i = None"
    using give_address by (auto simp: asked_ok_def slots_ok_def)
  have h: "holder (hand_over i addr s) = (holder s)(i \<mapsto> addr)"
    by (auto simp: holder_def hand_over_def fun_eq_iff split: option.splits)
  from give_address new show ?case
    unfolding asked_ok_def h by (auto simp: hand_over_def split: if_splits)
next
  case (send_returns s i addr nt ack resp evs)
  have "sk_accepted s i = None"
    using send_returns(2,4) unfolding slots_ok_def
    by (metis not_less option.distinct(1) num.distinct(1) one_eq_numeral_iff)
  then have "holder (finish_send i addr ack resp s) =
      (if ack = 1 then holder s else (holder s)(i := None))"
    using send_returns(2) by (auto simp: holder_def finish_send_def fun_eq_iff split: option.splits)
  with send_returns(5) show ?case
    by (auto simp: asked_ok_def finish_send_def split: if_splits)
qed (auto simp: asked_ok_def)

lemma seek_inv_step: "seek_step candType request s t \<Longrightarrow> seek_inv n s \<Longrightarrow> seek_inv n t"
  using slots_ok_step asked_ok_step unfolding seek_inv_def by blast

interpretation seek: invariant_system "(=) (init_seek n resp)" "seek_step candType request" "seek_inv n"
  for n resp candType request
proof unfold_locales
  show "(=) (init_seek n resp) s \<Longrightarrow> seek_inv n s" for s
    by (auto simp: seek_inv_def slots_ok_def asked_ok_def holder_def init_seek_def)
qed (rule seek_inv_step)

section \<open>Properties\<close>

text \<open>C11: When the search for custodians reports success, every copy of the contract has a custodian
  of its own: as many different addresses as the contract's cardinality, each of them asked, each
  with an accepted request, whatever events arrive and whatever the network does meanwhile.\<close>

theorem found_custodians:
  assumes "seek_reachable ''offer'' (SeekStorage_request env c) (SeekStorage_init c) s"
    and "sk_main s = MDone"
  shows "\<exists>custodian. (\<forall>i<unat (c_Cardinality c). sk_accepted s i = Some (custodian i) \<and>
        custodian i \<in> set (sk_asked s)) \<and>
    inj_on custodian {..<unat (c_Cardinality c)}"
proof -
  let ?n = "unat (c_Cardinality c)"
  have inv: "slots_ok ?n s" "asked_ok s"
    using seek.invariant [OF assms(1) [unfolded SeekStorage_init_def]] by (simp_all add: seek_inv_def)
  have acks: "sk_acks s ! i = 1" if "i < ?n" for i
    using inv(1) assms(2) that unfolding slots_ok_def by (metis nth_mem)
  have h: "\<exists>addr. sk_accepted s i = Some addr \<and> holder s i = Some addr" if "i < ?n" for i
  proof -
    have "sk_sends s i = None"
      using inv(1) acks [OF that] that unfolding slots_ok_def
      by (metis num.distinct(1) one_eq_numeral_iff)
    moreover have "sk_accepted s i \<noteq> None" using inv(1) acks [OF that] that by (auto simp: slots_ok_def)
    ultimately show ?thesis by (auto simp: holder_def)
  qed
  define f where "f i = the (sk_accepted s i)" for i
  have f: "sk_accepted s i = Some (f i)" "holder s i = Some (f i)" if "i < ?n" for i
    using h [OF that] by (auto simp: f_def)
  have "f i \<in> set (sk_asked s)" if "i < ?n" for i
    using f(2) [OF that] inv(2) by (auto simp: asked_ok_def)
  moreover have "inj_on f {..<?n}"
  proof (rule inj_onI)
    fix i j
    assume "i \<in> {..<?n}" "j \<in> {..<?n}" "f i = f j"
    then have "holder s i = Some (f i)" "holder s j = Some (f i)" using f(2) by auto
    then show "i = j" using inv(2) unfolding asked_ok_def by blast
  qed
  ultimately show ?thesis using f(1) by blast
qed

text \<open>No node is asked twice in one search.\<close>

theorem never_asked_twice:
  assumes "seek_reachable candType request (init_seek n resp) s"
  shows "distinct (sk_asked s)"
  using seek.invariant [OF assms] by (simp add: seek_inv_def asked_ok_def)

section \<open>The served data\<close>

lemma Send_retrieval:
  "Send nt addr (MRetrievalRequest r) 2 (RetrievalCell c) = Inr (ack, resp, evs) \<Longrightarrow>
   \<exists>c'. resp = RetrievalCell c' \<and> (ack = 1 \<longrightarrow> RP_IpfsLinks c' \<noteq> [])"
  by (auto simp: Send_def unpack_def Let_def write_bytes_eq Marshal_Type Message_Type_defs
      split: message.splits option.splits sum.splits response_cell.splits if_splits)

definition links_ok :: "seek \<Rightarrow> bool" where
  "links_ok s \<longleftrightarrow>
     (\<exists>c. sk_response s = RetrievalCell c \<and> (sk_acks s = [1] \<longrightarrow> RP_IpfsLinks c \<noteq> []))"

lemma links_ok_step:
  "seek_step candType (MRetrievalRequest r) s t \<Longrightarrow> slots_ok 1 s \<Longrightarrow> links_ok s \<Longrightarrow> links_ok t"
proof (induction rule: seek_step.induct)
  case (slot_free s i acks)
  have "i = 0" "length acks = 1" "acks ! 0 = 2"
    using getSlot_Slot [OF slot_free(3)] slot_free(4) by (auto simp: slots_ok_def)
  then have "acks \<noteq> [1]" by auto
  with slot_free(5) show ?case by (auto simp: links_ok_def)
next
  case (send_returns s i addr nt ack resp evs)
  then have i: "i = 0" "sk_acks s ! i = 2" "length (sk_acks s) = 1"
    unfolding slots_ok_def by (metis less_one not_less option.distinct(1))+
  obtain c where "sk_response s = RetrievalCell c" using send_returns(5) by (auto simp: links_ok_def)
  with send_returns(3) i obtain c' where
    "resp = RetrievalCell c'" "ack = 1 \<longrightarrow> RP_IpfsLinks c' \<noteq> []"
    using Send_retrieval by (metis i(2))
  with i show ?case by (cases "sk_acks s") (auto simp: links_ok_def finish_send_def)
qed (auto simp: links_ok_def hand_over_def)

interpretation retrieval: invariant_system "(=) RetrieveData_init"
  "seek_step candType (MRetrievalRequest r)" "\<lambda>s. seek_inv 1 s \<and> links_ok s" for candType r
proof unfold_locales
  show "(=) RetrieveData_init s \<Longrightarrow> seek_inv 1 s \<and> links_ok s" for s
    by (auto simp: seek_inv_def slots_ok_def asked_ok_def holder_def links_ok_def RetrieveData_init_def
        init_seek_def)
qed (use seek_inv_step links_ok_step in \<open>auto simp: seek_inv_def\<close>)

text \<open>What \<^verbatim>\<open>RetrieveData\<close> returns, once its loop ends.\<close>

definition RetrieveData_result :: "seek \<Rightarrow> gostring list option" where
  "RetrieveData_result s =
     (if sk_main s = MDone
      then (case sk_response s of RetrievalCell r \<Rightarrow> Some (RP_IpfsLinks r) | StorageCell _ \<Rightarrow> None) else None)"

text \<open>When \<^verbatim>\<open>RetrieveData\<close> returns, it returns at least one link: it goes on asking until some
  node that holds a contract of the owner has answered with links.\<close>

theorem retrieved_some_link:
  assumes "seek_reachable ownerID (MRetrievalRequest r) RetrieveData_init s" and "sk_main s = MDone"
  shows "\<exists>links. RetrieveData_result s = Some links \<and> links \<noteq> []"
proof -
  have inv: "slots_ok 1 s" "links_ok s"
    using retrieval.invariant [OF assms(1)] by (simp_all add: seek_inv_def)
  then have "length (sk_acks s) = 1" "\<forall>a\<in>set (sk_acks s). a = 1"
    using assms(2) by (simp_all add: slots_ok_def)
  then have "sk_acks s = [1]" by (cases "sk_acks s") auto
  with inv(2) assms(2) show ?thesis by (auto simp: links_ok_def RetrieveData_result_def)
qed

section \<open>The response cell keeps its type\<close>

fun cell_matches :: "message \<Rightarrow> response_cell \<Rightarrow> bool" where
  "cell_matches (MStorageRequest _) (StorageCell _) = True"
| "cell_matches (MRetrievalRequest _) (RetrievalCell _) = True"
| "cell_matches _ _ = False"

lemma cell_matches_cases:
  assumes "cell_matches request resp"
  obtains r c where "request = MStorageRequest r" "resp = StorageCell c"
  | r c where "request = MRetrievalRequest r" "resp = RetrievalCell c"
  using assms by (cases "(request, resp)" rule: cell_matches.cases) auto

lemma Send_keeps_type:
  assumes "cell_matches request resp"
  shows "Send nt addr request ack resp \<noteq> Inl TypeAssertionFailed"
    and "Send nt addr request ack resp = Inr (ack', resp', evs) \<Longrightarrow> cell_matches request resp'"
proof -
  have "case Send nt addr request ack resp of
      Inl p \<Rightarrow> p \<noteq> TypeAssertionFailed | Inr (_, resp', _) \<Rightarrow> cell_matches request resp'"
    using assms
    by (cases rule: cell_matches_cases)
      (auto simp: Send_def unpack_def Let_def write_bytes_eq Marshal_Type Message_Type_defs
        UnmarshalFromProtobuf_def split: option.splits)
  then show "Send nt addr request ack resp \<noteq> Inl TypeAssertionFailed"
    and "Send nt addr request ack resp = Inr (ack', resp', evs) \<Longrightarrow> cell_matches request resp'"
    by (auto split: sum.splits)
qed

lemma cell_matches_step:
  "seek_step candType request s t \<Longrightarrow> cell_matches request (sk_response s) \<Longrightarrow>
   cell_matches request (sk_response t)"
  by (induction rule: seek_step.induct) (auto simp: seek_defs dest: Send_keeps_type(2))

interpretation typed: invariant_system "\<lambda>s. s = init_seek n resp \<and> cell_matches request resp"
  "seek_step candType request" "\<lambda>s. cell_matches request (sk_response s)" for n resp candType request
  by unfold_locales (auto simp: init_seek_def dest: cell_matches_step)

lemma reader_keeps_type: "reader env cr rd now bs om \<noteq> Inl TypeAssertionFailed"
  by (auto simp: reader_def UnmarshalFromProtobuf_def Message_Type_defs Let_def
      split: option.splits prod.splits)

text \<open>C30: The program's type assertions on messages and response cells never fail: the handler of
  incoming streams gets the kind of message its type announces, and in every search started with
  a cell of the request's kind, as both searches do, the cell keeps that kind and no \<^verbatim>\<open>Send\<close> finds
  another, whatever the peers answer.\<close>

theorem assertions_never_fail:
  assumes "reachable (\<lambda>s. s = init_seek n resp \<and> cell_matches request resp) (seek_step candType request) s"
  shows "cell_matches request (sk_response s) \<and>
    Send nt addr request ack (sk_response s) \<noteq> Inl TypeAssertionFailed \<and>
    reader env cr rd now bs om \<noteq> Inl TypeAssertionFailed \<and>
    cell_matches (SeekStorage_request env' c) (sk_response (SeekStorage_init c)) \<and>
    cell_matches (MRetrievalRequest r) (sk_response RetrieveData_init)"
  using typed.invariant [OF assms] Send_keeps_type(1) [of request] reader_keeps_type
  by (simp add: SeekStorage_request_def SeekStorage_init_def RetrieveData_init_def init_seek_def)

section \<open>The lost slot\<close>

text \<open>A slot that waits although nobody works on it.\<close>

definition lost :: "nat \<Rightarrow> seek \<Rightarrow> bool" where
  "lost i s \<longleftrightarrow> i < length (sk_acks s) \<and> sk_acks s ! i = 2 \<and> sk_sends s i = None \<and>
     sk_main s \<noteq> MAddr i \<and> sk_main s \<noteq> MDone"

lemma lost_step: "seek_step candType request s t \<Longrightarrow> lost i s \<Longrightarrow> lost i t"
proof (induction rule: seek_step.induct)
  case (slot_free s j acks)
  then show ?case using getSlot_Slot [OF slot_free(3)] by (auto simp: lost_def nth_list_update)
next
  case (slots_done s acks)
  then show ?case using getSlot_AllDone [OF slots_done(3)]
    unfolding lost_def by (metis nth_mem num.distinct(1) one_eq_numeral_iff)
qed (auto simp: lost_def hand_over_def finish_send_def nth_list_update)

lemma lost_forever: "(seek_step candType request)\<^sup>*\<^sup>* s t \<Longrightarrow> lost i s \<Longrightarrow> lost i t"
  by (induction rule: rtranclp_induct) (auto dest: lost_step)

text \<open>C13: One failed connection can stop a search for good: if the network cannot connect to the first
  candidate, \<^verbatim>\<open>Send\<close> leaves its slot waiting, and from then on the search never ends, however many
  offers arrive and whatever the network does later.\<close>

theorem failed_connection_blocks:
  assumes "0 < c_Cardinality c"
  shows "\<exists>s. seek_reachable ''offer'' (SeekStorage_request env c) (SeekStorage_init c) s \<and>
    (\<forall>t. (seek_step ''offer'' (SeekStorage_request env c))\<^sup>*\<^sup>* s t \<longrightarrow> sk_main t \<noteq> MDone)"
proof -
  let ?step = "seek_step ''offer'' (SeekStorage_request env c)" and ?x = "zero_Offer"
  let ?nt = "(demo_network (\<lambda>_. Inr ([], None, demo_om [] 0)))\<lparr>nt_Connect := (\<lambda>_. False)\<rparr>"
  obtain n where n: "unat (c_Cardinality c) = Suc n"
    using assms by (cases "unat (c_Cardinality c)") (auto simp: word_less_nat_alt)
  define s0 where "s0 = SeekStorage_init c"
  define s1 where "s1 = s0\<lparr>sk_acks := 2 # replicate n 0, sk_main := MAddr 0\<rparr>"
  define s2 where "s2 = s1\<lparr>sk_cand := GOffer (o_Multiaddr ?x), sk_tried := {}\<rparr>"
  define s3 where "s3 = hand_over 0 (o_Multiaddr ?x) s2"
  define s4 where "s4 = finish_send 0 (o_Multiaddr ?x) 2 (sk_response s3) s3"
  note defs = s0_def s1_def s2_def s3_def s4_def SeekStorage_init_def init_seek_def hand_over_def
    finish_send_def
  have "getSlot (replicate (Suc n) 0) = (Slot 0, 2 # replicate n 0)"
    by (simp add: getSlot_def)
  then have "?step s0 s1"
    unfolding s1_def by (intro seek_step.slot_free) (simp_all add: defs n)
  moreover have "?step s1 s2"
    unfolding s2_def
    by (rule seek_step.hear_candidate [where evt = "OfferPub ?x"]) (simp_all add: defs candidate_eq)
  moreover have "?step s2 s3"
    unfolding s3_def by (rule seek_step.give_address) (simp_all add: defs)
  moreover have "?step s3 s4"
    unfolding s4_def
    by (rule seek_step.send_returns [where nt = ?nt and evs = "[]"])
      (simp_all add: defs Send_def SeekStorage_request_def demo_network_def)
  ultimately have "seek_reachable ''offer'' (SeekStorage_request env c) (SeekStorage_init c) s4"
    unfolding s0_def
    by (rule reach_init [where init = "(=) (SeekStorage_init c)", OF refl, THEN reach_step,
          THEN reach_step, THEN reach_step, THEN reach_step])
  moreover have "lost 0 s4" by (simp add: lost_def defs n)
  ultimately show ?thesis using lost_forever unfolding lost_def by blast
qed

section \<open>Witnesses\<close>

text \<open>A search for one custodian of \<open>c\<close> that asks one node, which answers \<open>out\<close>.\<close>

definition answering :: "message \<Rightarrow> network" where
  "answering out = (demo_network (\<lambda>_. Inr ([], None, demo_om [] 0)))
     \<lparr>nt_answer := (\<lambda>_ _. wire_PbMessage (MarshalToProtobuf out))\<rparr>"

lemma receive_answer:
  "PbMessage_Size (MarshalToProtobuf out) \<le> read_limit \<Longrightarrow>
   receive (nt_reader (answering out)) (nt_answer (answering out) addr bs) = Some (MarshalToProtobuf out)"
  by (simp add: answering_def demo_network_def receive_marshalled whole_demo_reader)

lemma one_slot_search:
  assumes "candidate candType {} evt = Inr (Some addr, {})"
    and "Send nt addr request 2 resp = Inr (1, resp', evs)"
  shows "\<exists>s. seek_reachable candType request (init_seek 1 resp) s \<and> sk_main s = MDone \<and>
    sk_accepted s 0 = Some addr \<and> sk_asked s = [addr] \<and> sk_response s = resp'"
proof -
  let ?step = "seek_step candType request"
  define s0 where "s0 = init_seek 1 resp"
  define s1 where "s1 = s0\<lparr>sk_acks := [2], sk_main := MAddr 0\<rparr>"
  define s2 where "s2 = s1\<lparr>sk_cand := GOffer addr, sk_tried := {}\<rparr>"
  define s3 where "s3 = hand_over 0 addr s2"
  define s4 where "s4 = finish_send 0 addr 1 resp' s3"
  define s5 where "s5 = s4\<lparr>sk_main := MDone\<rparr>"
  note defs = s0_def s1_def s2_def s3_def s4_def s5_def init_seek_def hand_over_def finish_send_def
  have "?step s0 s1"
    unfolding s1_def by (intro seek_step.slot_free) (simp_all add: defs getSlot_def)
  moreover have "?step s1 s2"
    unfolding s2_def by (rule seek_step.hear_candidate [where evt = evt]) (simp_all add: defs assms(1))
  moreover have "?step s2 s3"
    unfolding s3_def by (rule seek_step.give_address) (simp_all add: defs)
  moreover have "?step s3 s4"
    unfolding s4_def
    by (rule seek_step.send_returns [where nt = nt and evs = evs]) (simp_all add: defs assms(2))
  moreover have "?step s4 s5"
    unfolding s5_def by (rule seek_step.slots_done [where acks = "[1]"]) (simp_all add: defs getSlot_def)
  ultimately have "seek_reachable candType request s0 s5"
    by (rule reach_init [where init = "(=) s0", OF refl, THEN reach_step,
          THEN reach_step, THEN reach_step, THEN reach_step, THEN reach_step])
  then show ?thesis unfolding s0_def by (intro exI [of _ s5]) (simp add: defs)
qed

definition demo_answer :: StorageResponse where
  "demo_answer = \<lparr>SP_Multiaddr = ''b'', SP_Done = True\<rparr>"

lemma demo_answer_fits: "PbMessage_Size (MarshalToProtobuf (MStorageResponse demo_answer)) \<le> read_limit"
  by (simp add: wire_sizes demo_answer_def sovMsg_small word_less_nat_alt read_limit_def)

lemma demo_search:
  "\<exists>s. seek_reachable ''offer'' (SeekStorage_request demo_env (demo_contract ''c'' 5 200))
       (init_seek 1 (StorageCell \<lparr>SP_Multiaddr = [], SP_Done = False\<rparr>)) s \<and>
     sk_main s = MDone \<and> sk_accepted s 0 = Some [] \<and> sk_asked s = [[]] \<and>
     sk_response s = StorageCell demo_answer"
proof (rule one_slot_search)
  show "candidate ''offer'' {} (OfferPub zero_Offer) = Inr (Some [], {})"
    by (simp add: candidate_eq zero_Offer_def)
  show "Send (answering (MStorageResponse demo_answer)) []
      (SeekStorage_request demo_env (demo_contract ''c'' 5 200)) 2
      (StorageCell \<lparr>SP_Multiaddr = [], SP_Done = False\<rparr>) =
    Inr (1, StorageCell demo_answer, [StorageResponseEvt ''b'' True])"
    using receive_answer [OF demo_answer_fits] Unmarshal_MarshalToProtobuf [of "MStorageResponse demo_answer"]
    by (simp add: Send_def SeekStorage_request_def write_bytes_eq unpack_def Marshal_Type
        Message_Type_defs)
      (simp add: answering_def demo_network_def demo_answer_def)
qed

lemma demo_search_init:
  "SeekStorage_init (demo_contract ''c'' 5 200) =
     init_seek 1 (StorageCell \<lparr>SP_Multiaddr = [], SP_Done = False\<rparr>)"
  by (simp add: SeekStorage_init_def demo_contract_def)

theorem found_custodians_witness:
  "\<exists>(s::seek) custodian. sk_main s = MDone \<and> sk_accepted s 0 = Some (custodian (0::nat)) \<and>
     custodian 0 \<in> set (sk_asked s)"
proof -
  let ?c = "demo_contract ''c'' 5 200"
  obtain s where s: "seek_reachable ''offer'' (SeekStorage_request demo_env ?c) (SeekStorage_init ?c) s"
      "sk_main s = MDone"
    using demo_search unfolding demo_search_init by (elim exE conjE)
  have "0 < unat (c_Cardinality ?c)" by (simp add: demo_contract_def)
  with found_custodians [OF s] obtain custodian where f: "sk_accepted s 0 = Some (custodian 0)"
      "custodian 0 \<in> set (sk_asked s)"
    by (elim exE conjE) simp
  show ?thesis by (rule exI, rule exI, rule conjI, rule s(2), rule conjI, (rule f)+)
qed

theorem never_asked_twice_witness:
  "\<exists>s::seek. sk_main s = MDone \<and> sk_asked s = [[]] \<and> distinct (sk_asked s)"
proof -
  obtain s where s: "seek_reachable ''offer'' (SeekStorage_request demo_env (demo_contract ''c'' 5 200))
       (init_seek 1 (StorageCell \<lparr>SP_Multiaddr = [], SP_Done = False\<rparr>)) s"
     "sk_main s = MDone" "sk_asked s = [[]]"
    using demo_search by (elim exE conjE)
  show ?thesis by (rule exI, rule conjI, rule s(2), rule conjI, rule s(3), rule never_asked_twice [OF s(1)])
qed

theorem retrieved_some_link_witness:
  "\<exists>(s::seek) links. sk_main s = MDone \<and> RetrieveData_result s = Some links \<and> links \<noteq> []"
proof -
  let ?r = "\<lparr>RQ_Multiaddr = ''a'', RQ_OwnerID = ''Q'', RQ_Timestamp = time_Unix 100, RQ_Signature = []\<rparr>"
  let ?answer = "MRetrievalResponse \<lparr>RP_IpfsLinks = [''x'']\<rparr>"
  have fits: "PbMessage_Size (MarshalToProtobuf ?answer) \<le> read_limit"
    by (simp add: wire_sizes sovMsg_small word_less_nat_alt read_limit_def)
  have "\<exists>s. seek_reachable ''Q'' (MRetrievalRequest ?r) (init_seek 1 (RetrievalCell \<lparr>RP_IpfsLinks = []\<rparr>)) s \<and>
     sk_main s = MDone \<and> sk_accepted s 0 = Some ''b'' \<and> sk_asked s = [''b''] \<and>
     sk_response s = RetrievalCell \<lparr>RP_IpfsLinks = [''x'']\<rparr>"
  proof (rule one_slot_search)
    show "candidate ''Q'' {} (ContractPub ''b'' [zero_Contract\<lparr>c_OwnerID := ''Q''\<rparr>]) = Inr (Some ''b'', {})"
      by (simp add: candidate_eq zero_Contract_def)
    show "Send (answering ?answer) ''b'' (MRetrievalRequest ?r) 2 (RetrievalCell \<lparr>RP_IpfsLinks = []\<rparr>) =
        Inr (1, RetrievalCell \<lparr>RP_IpfsLinks = [''x'']\<rparr>, [RetrievalResponseEvt [''x'']])"
      using receive_answer [OF fits] Unmarshal_MarshalToProtobuf [of ?answer]
      by (simp add: Send_def write_bytes_eq unpack_def Marshal_Type Message_Type_defs)
        (simp add: answering_def demo_network_def)
  qed
  then obtain s where s: "seek_reachable ''Q'' (MRetrievalRequest ?r) RetrieveData_init s" "sk_main s = MDone"
    unfolding RetrieveData_init_def by (elim exE conjE)
  from retrieved_some_link [OF s] obtain links where
    links: "RetrieveData_result s = Some links" "links \<noteq> []"
    by (elim exE conjE)
  show ?thesis by (rule exI, rule exI, rule conjI, rule s(2), rule conjI, (rule links)+)
qed

theorem failed_connection_blocks_witness:
  "\<exists>s. seek_reachable ''offer'' (SeekStorage_request demo_env (demo_contract ''c'' 5 200))
         (SeekStorage_init (demo_contract ''c'' 5 200)) s \<and>
       (\<forall>t. (seek_step ''offer'' (SeekStorage_request demo_env (demo_contract ''c'' 5 200)))\<^sup>*\<^sup>* s t \<longrightarrow>
          sk_main t \<noteq> MDone)"
  by (rule failed_connection_blocks) (simp add: demo_contract_def)

theorem assertions_never_fail_witness:
  "cell_matches (MRetrievalRequest \<lparr>RQ_Multiaddr = [], RQ_OwnerID = [], RQ_Timestamp = zero_time,
     RQ_Signature = []\<rparr>) (sk_response RetrieveData_init)"
proof -
  let ?r = "MRetrievalRequest \<lparr>RQ_Multiaddr = [], RQ_OwnerID = [], RQ_Timestamp = zero_time, RQ_Signature = []\<rparr>"
  have "reachable (\<lambda>s. s = init_seek 1 (RetrievalCell \<lparr>RP_IpfsLinks = []\<rparr>) \<and>
      cell_matches ?r (RetrievalCell \<lparr>RP_IpfsLinks = []\<rparr>)) (seek_step ''Qm'' ?r) RetrieveData_init"
    by (rule reach_init) (simp add: RetrieveData_init_def)
  from this show ?thesis by (rule assertions_never_fail [THEN conjunct1])
qed

end
