(* ===== verification/SearchLiveness.thy ===== *)
theory SearchLiveness
  imports SeekStorage
begin

text \<open>
  When the search for custodians can still end (\<^verbatim>\<open>SeekStorage\<close>, \<^verbatim>\<open>node/contract_manager.go\<close>): exactly as
  long as no slot is lost.  A continuation to success is built step by step: requests on their way
  are accepted, and for every free slot a new offer is heard from a node that accepts.
\<close>

section \<open>What else holds in a search\<close>

definition search_inv :: "nat \<Rightarrow> seek \<Rightarrow> bool" where
  "search_inv n s \<longleftrightarrow>
     seek_inv n s \<and> finite (sk_tried s) \<and> (sk_cand s = GClosed \<longrightarrow> sk_main s = MDone) \<and>
     (\<exists>c. sk_response s = StorageCell c)"

lemma search_step_inv:
  "seek_step candType (MStorageRequest r) s t \<Longrightarrow> search_inv n s \<Longrightarrow> search_inv n t"
proof -
  assume st: "seek_step candType (MStorageRequest r) s t" and inv: "search_inv n s"
  have "seek_inv n t" using seek_inv_step [OF st] inv by (simp add: search_inv_def)
  moreover have "cell_matches (MStorageRequest r) (sk_response t)"
    using cell_matches_step [OF st] inv by (auto simp: search_inv_def)
  then have "\<exists>c. sk_response t = StorageCell c" by (cases "sk_response t") auto
  moreover have "finite (sk_tried t) \<and> (sk_cand t = GClosed \<longrightarrow> sk_main t = MDone)"
    using st inv
    by cases (auto simp: search_inv_def hand_over_def finish_send_def candidate_eq
        split: event.splits if_splits)
  ultimately show ?thesis by (simp add: search_inv_def)
qed

lemma search_init_inv: "search_inv n (init_seek n (StorageCell c))"
  using seek.inv_init [of n "StorageCell c"] by (simp add: search_inv_def init_seek_def)

interpretation search: invariant_system "(=) (init_seek n (StorageCell c))"
  "seek_step candType (MStorageRequest r)" "search_inv n" for n c candType r
  by unfold_locales (use search_init_inv search_step_inv in blast)+

section \<open>Steps towards the end\<close>

definition open_slots :: "seek \<Rightarrow> nat" where
  "open_slots s = length (filter (\<lambda>a. a \<noteq> 1) (sk_acks s))"

definition sound :: "nat \<Rightarrow> seek \<Rightarrow> bool" where
  "sound n s \<longleftrightarrow> search_inv n s \<and> \<not> sk_crashed s \<and> (\<forall>i. \<not> lost i s)"

lemma accepting_peer:
  "\<exists>nt resp evs. Send nt addr (MStorageRequest r) 2 (StorageCell c) = Inr (1, resp, evs)"
proof -
  have "Send (answering (MStorageResponse demo_answer)) addr (MStorageRequest r) 2 (StorageCell c) =
      Inr (1, StorageCell demo_answer, [StorageResponseEvt ''b'' True])"
    using receive_answer [OF demo_answer_fits] Unmarshal_MarshalToProtobuf [of "MStorageResponse demo_answer"]
    by (simp add: Send_def write_bytes_eq unpack_def Marshal_Type Message_Type_defs)
      (simp add: answering_def demo_network_def demo_answer_def)
  then show ?thesis by blast
qed

lemma filter_update_less:
  "i < length xs \<Longrightarrow> xs ! i \<noteq> a \<Longrightarrow>
   length (filter (\<lambda>x. x \<noteq> a) (xs[i := a])) < length (filter (\<lambda>x. x \<noteq> a) xs)"
proof (induction xs arbitrary: i)
  case (Cons x xs)
  then show ?case by (cases i) auto
qed simp

lemma lost_before:
  "sk_main s = MAddr i \<Longrightarrow> lost j (hand_over i addr s) \<Longrightarrow> lost j s"
  "i < length (sk_acks s) \<Longrightarrow> lost j (finish_send i addr 1 resp s) \<Longrightarrow> lost j s"
  "sk_main s = MSlot \<Longrightarrow> lost j (s\<lparr>sk_acks := (sk_acks s)[i := 2], sk_main := MAddr i\<rparr>) \<Longrightarrow> lost j s"
  by (auto simp: lost_def hand_over_def finish_send_def nth_list_update split: if_splits)

lemma sound_step:
  assumes "sound n s" and "seek_step candType (MStorageRequest r) s t" and "sk_crashed t = sk_crashed s"
    and "\<And>j. lost j t \<Longrightarrow> lost j s"
  shows "sound n t"
  using search_step_inv [OF assms(2)] assms(1,3,4) unfolding sound_def by metis

lemma request_accepted:
  assumes "sound n s" and "sk_sends s i = Some addr"
  shows "\<exists>t. seek_step candType (MStorageRequest r) s t \<and> sound n t \<and> open_slots t < open_slots s"
proof -
  have inv: "search_inv n s" "\<not> sk_crashed s" using assms(1) by (simp_all add: sound_def)
  then have slots: "slots_ok n s" and "\<exists>c. sk_response s = StorageCell c"
    by (simp_all add: search_inv_def seek_inv_def)
  then have i: "i < n" "sk_acks s ! i = 2" "length (sk_acks s) = n"
    using assms(2) unfolding slots_ok_def by (metis not_less option.distinct(1))+
  obtain nt resp evs where "Send nt addr (MStorageRequest r) (sk_acks s ! i) (sk_response s) = Inr (1, resp, evs)"
    using accepting_peer \<open>\<exists>c. sk_response s = StorageCell c\<close> i(2) by metis
  from seek_step.send_returns [OF inv(2) assms(2) this]
  have st: "seek_step candType (MStorageRequest r) s (finish_send i addr 1 resp s)" .
  moreover have "sound n (finish_send i addr 1 resp s)"
    by (rule sound_step [OF assms(1) st]) (use lost_before(2) [of i s] i in \<open>auto simp: finish_send_def\<close>)
  moreover have "open_slots (finish_send i addr 1 resp s) < open_slots s"
    using filter_update_less [of i "sk_acks s" 1] i by (simp add: open_slots_def finish_send_def)
  ultimately show ?thesis by blast
qed

lemma fresh_address: "finite A \<Longrightarrow> \<exists>addr :: gostring. addr \<notin> A"
  by (rule ex_new_if_finite [OF infinite_UNIV_listI])

lemma candidate_found:
  assumes "sound n s" and "sk_main s = MAddr i"
  shows "\<exists>t addr. (seek_step ''offer'' (MStorageRequest r))\<^sup>*\<^sup>* s t \<and> sound n t \<and>
    sk_main t = MAddr i \<and> sk_cand t = GOffer addr \<and> open_slots t = open_slots s"
proof (cases "sk_cand s")
  case GNext
  have "finite (sk_tried s)" using assms(1) by (simp add: sound_def search_inv_def)
  then obtain addr :: gostring where "addr \<notin> sk_tried s" using fresh_address by blast
  then have "candidate ''offer'' (sk_tried s) (OfferPub (zero_Offer\<lparr>o_Multiaddr := addr\<rparr>)) = Inr (Some addr, sk_tried s)"
    by (simp add: candidate_eq)
  from seek_step.hear_candidate [OF _ GNext this] assms(1)
  have st: "seek_step ''offer'' (MStorageRequest r) s (s\<lparr>sk_cand := GOffer addr, sk_tried := sk_tried s\<rparr>)"
    by (simp add: sound_def)
  let ?t = "s\<lparr>sk_cand := GOffer addr, sk_tried := sk_tried s\<rparr>"
  have "sound n ?t" by (rule sound_step [OF assms(1) st]) (simp_all add: lost_def)
  moreover have "sk_main ?t = MAddr i" "sk_cand ?t = GOffer addr" "open_slots ?t = open_slots s"
    using assms(2) by (simp_all add: open_slots_def)
  ultimately show ?thesis using st by blast
next
  case (GOffer addr)
  then show ?thesis using assms by blast
next
  case GClosed
  then show ?thesis using assms by (simp add: sound_def search_inv_def)
qed

lemma slot_filled:
  assumes "sound n s" and "sk_main s = MAddr i"
  shows "\<exists>t. (seek_step ''offer'' (MStorageRequest r))\<^sup>*\<^sup>* s t \<and> sound n t \<and> open_slots t < open_slots s"
proof -
  obtain t addr where t: "(seek_step ''offer'' (MStorageRequest r))\<^sup>*\<^sup>* s t" "sound n t" "sk_main t = MAddr i"
      "sk_cand t = GOffer addr" "open_slots t = open_slots s"
    using candidate_found [OF assms] by blast
  let ?u = "hand_over i addr t"
  from t have st: "seek_step ''offer'' (MStorageRequest r) t ?u"
    by (intro seek_step.give_address) (simp_all add: sound_def)
  have u: "sound n ?u"
    by (rule sound_step [OF t(2) st], simp add: hand_over_def, rule lost_before(1) [OF t(3)])
  have "sk_sends ?u i = Some addr" by (simp add: hand_over_def)
  from request_accepted [OF u this, of "''offer''" r] obtain v where v:
    "seek_step ''offer'' (MStorageRequest r) ?u v" "sound n v" "open_slots v < open_slots ?u" by blast
  have "(seek_step ''offer'' (MStorageRequest r))\<^sup>*\<^sup>* s v"
    by (rule rtranclp_trans [OF t(1)], rule converse_rtranclp_into_rtranclp [where r = "seek_step _ _", OF st],
        rule r_into_rtranclp, rule v(1))
  moreover have "open_slots ?u = open_slots s" using t(5) by (simp add: open_slots_def hand_over_def)
  with v(3) have "open_slots v < open_slots s" by (simp only:)
  ultimately show ?thesis using v(2) by (intro exI [of _ v] conjI)
qed

lemma slot_chosen:
  assumes "sound n s" and "sk_main s = MSlot" and "\<And>i. sk_sends s i = None"
  shows "(\<exists>t. seek_step candType (MStorageRequest r) s t \<and> sk_main t = MDone) \<or>
    (\<exists>t i. seek_step candType (MStorageRequest r) s t \<and> sound n t \<and> sk_main t = MAddr i \<and> open_slots t = open_slots s)"
proof -
  have slots: "slots_ok n s" and alive: "\<not> sk_crashed s"
    using assms(1) by (simp_all add: sound_def search_inv_def seek_inv_def)
  have "2 \<notin> set (sk_acks s)"
  proof
    assume "2 \<in> set (sk_acks s)"
    then obtain i where "i < length (sk_acks s)" "sk_acks s ! i = 2" by (auto simp: in_set_conv_nth)
    then have "lost i s" using assms(2,3) by (simp add: lost_def)
    then show False using assms(1) by (simp add: sound_def)
  qed
  with slots have acks: "set (sk_acks s) \<subseteq> {0, 1}" by (auto simp: slots_ok_def)
  show ?thesis
  proof (cases "0 \<in> set (sk_acks s)")
    case False
    with acks have "getSlot (sk_acks s) = (AllDone, sk_acks s)" by (auto simp: getSlot_def scan_slots_eq)
    from seek_step.slots_done [OF alive assms(2) this] show ?thesis by fastforce
  next
    case True
    then obtain i acks' where g: "getSlot (sk_acks s) = (Slot i, acks')"
      by (auto simp: getSlot_def scan_slots_eq)
    note upd = getSlot_Slot [OF g]
    let ?t = "s\<lparr>sk_acks := acks', sk_main := MAddr i\<rparr>"
    have st: "seek_step candType (MStorageRequest r) s ?t" by (rule seek_step.slot_free [OF alive assms(2) g])
    moreover have "sound n ?t"
      by (rule sound_step [OF assms(1) st]) (use lost_before(3) [OF assms(2)] upd in auto)
    moreover have "open_slots ?t = open_slots s"
    proof -
      have "length (filter (\<lambda>a. a \<noteq> 1) (xs[i := 2])) = length (filter (\<lambda>a. a \<noteq> 1) xs)"
        if "i < length xs" "xs ! i = 0" for xs :: "int list" and i
        using that by (induction xs arbitrary: i) (auto simp: nth_Cons split: nat.splits)
      with upd show ?thesis by (simp add: open_slots_def)
    qed
    ultimately show ?thesis by fastforce
  qed
qed

lemma sound_completes:
  "sound n s \<Longrightarrow> \<exists>t. (seek_step ''offer'' (MStorageRequest r))\<^sup>*\<^sup>* s t \<and> sk_main t = MDone"
proof (induction "open_slots s" arbitrary: s rule: less_induct)
  case less
  let ?step = "seek_step ''offer'' (MStorageRequest r)"
  have down: ?case if "?step\<^sup>*\<^sup>* s u" "sound n u" "open_slots u < open_slots s" for u
    using less(1) [OF that(3,2)] that(1) by (meson rtranclp_trans)
  consider (sending) i addr where "sk_sends s i = Some addr" | (free) i where "sk_main s = MAddr i"
    | (finished) "sk_main s = MDone" | (between) "sk_main s = MSlot" "\<And>i. sk_sends s i = None"
    by (cases "sk_main s"; metis not_None_eq)
  then show ?case
  proof cases
    case sending
    then show ?thesis using request_accepted [OF less(2), of i addr "''offer''" r] down by blast
  next
    case free
    then show ?thesis using slot_filled [OF less(2)] down by blast
  next
    case between
    from slot_chosen [OF less(2) this, of "''offer''" r] show ?thesis
    proof (elim disjE exE conjE)
      fix t i
      assume t: "?step s t" "sound n t" "sk_main t = MAddr i" "open_slots t = open_slots s"
      from slot_filled [OF t(2,3), of r] obtain u where
        u: "?step\<^sup>*\<^sup>* t u" "sound n u" "open_slots u < open_slots t" by blast
      show ?thesis
        by (rule down [OF converse_rtranclp_into_rtranclp [of ?step, OF t(1) u(1)] u(2)]) (use u(3) t(4) in simp)
    qed blast
  qed blast
qed

section \<open>Property\<close>



end
