(* ===== verification/OmniManager.thy ===== *)
theory OmniManager
  imports ContractManager
begin

text \<open>
  The omni manager (\<^verbatim>\<open>node/omni_manager.go\<close>): what a node publishes on the pubsub topic every 23
  seconds, and what it makes of the messages it receives there.  A message on the topic is the
  JSON value its bytes hold, or bytes that hold none.
\<close>

section \<open>Messages on the topic\<close>

definition OmniMessageTypeContractPub :: gostring where
  "OmniMessageTypeContractPub = ''pub.contract''"

definition OmniMessageTypeOfferPub :: gostring where
  "OmniMessageTypeOfferPub = ''pub.offer''"

lemmas OmniMessageType_defs = OmniMessageTypeContractPub_def OmniMessageTypeOfferPub_def

text \<open>\<^verbatim>\<open>OmniMessageOut\<close>: marshals if its payload does.\<close>

definition json_of_OmniMessageOut :: "gostring \<Rightarrow> json option \<Rightarrow> json option" where
  "json_of_OmniMessageOut type payload =
     (case payload of
        None \<Rightarrow> None
      | Some p \<Rightarrow> Some (JObj [(''type'', json_of_string type), (''payload'', p)]))"

text \<open>\<^verbatim>\<open>OmniMessageIn\<close>: the payload is kept raw, \<open>None\<close> if the member is missing.\<close>

record OmniMessageIn =
  omi_Type :: gostring
  omi_Payload :: "json option"

fun json_raw :: "json option decoder" where
  "json_raw old v = Some (Some v)"

definition json_to_OmniMessageIn :: "json \<Rightarrow> OmniMessageIn option" where
  "json_to_OmniMessageIn v =
     (case json_members v of
        None \<Rightarrow> None
      | Some ms \<Rightarrow>
          (case (json_field json_string ''type'' [] ms, json_field json_raw ''payload'' None ms) of
             (Some t, Some p) \<Rightarrow> Some \<lparr>omi_Type = t, omi_Payload = p\<rparr>
           | _ \<Rightarrow> None))"

text \<open>The payload of a contract publication.\<close>

record contract_payload =
  cp_Multiaddr :: gostring
  cp_Contracts :: "Contract list"

definition json_of_contract_payload :: "contract_payload \<Rightarrow> json option" where
  "json_of_contract_payload p =
     (case json_of_Contracts (cp_Contracts p) of
        None \<Rightarrow> None
      | Some cs \<Rightarrow> Some (JObj [(''multiaddr'', json_of_string (cp_Multiaddr p)), (''contracts'', cs)]))"

definition json_to_contract_payload :: "json \<Rightarrow> contract_payload option" where
  "json_to_contract_payload v =
     (case json_members v of
        None \<Rightarrow> None
      | Some ms \<Rightarrow>
          (case (json_field json_string ''multiaddr'' [] ms,
                 json_field (json_slice json_to_Contract zero_Contract) ''contracts'' [] ms) of
             (Some a, Some cs) \<Rightarrow> Some \<lparr>cp_Multiaddr = a, cp_Contracts = cs\<rparr>
           | _ \<Rightarrow> None))"

section \<open>Joining\<close>

datatype topic_state = NotJoined | Cleaned | Joined

text \<open>The nil error, the topic, and whether the two goroutines were started.\<close>

definition JoinOmnidisk :: "bool \<Rightarrow> bool \<Rightarrow> bool \<times> topic_state \<times> bool" where
  "JoinOmnidisk join subscribe =
     (if \<not> join then (False, NotJoined, False)
      else if \<not> subscribe then (False, Cleaned, False)
      else (True, Joined, True))"

section \<open>Publishing\<close>

text \<open>One tick of \<^verbatim>\<open>advertiseOffer\<close>: what is published, if anything, and the refreshed offer.\<close>

definition publishOmniMessage :: "gostring \<Rightarrow> json option \<Rightarrow> json option" where
  "publishOmniMessage type payload = json_of_OmniMessageOut type payload"

definition advertiseOffer_tick ::
  "node_env \<Rightarrow> gotime \<Rightarrow> OfferManager \<Rightarrow> json option \<times> OfferManager"
where
  "advertiseOffer_tick env now om =
     (case GetOffer env now om of
        (x, om') \<Rightarrow> (publishOmniMessage OmniMessageTypeOfferPub (json_of_Offer x), om'))"

definition advertiseContracts_tick :: "node_env \<Rightarrow> OfferManager \<Rightarrow> json option" where
  "advertiseContracts_tick env om =
     (let contracts = GetContracts om
      in if length contracts = 0 then None
         else publishOmniMessage OmniMessageTypeContractPub
                (json_of_contract_payload \<lparr>cp_Multiaddr = n_Multiaddr env, cp_Contracts = contracts\<rparr>))"

text \<open>\<^verbatim>\<open>SetOffer\<close>: the third component tells whether advertising the offer is started.\<close>

definition SetOffer :: "node_env \<Rightarrow> gotime \<Rightarrow> uint32 \<Rightarrow> OfferManager \<Rightarrow> bool \<times> OfferManager \<times> bool" where
  "SetOffer env now capacity om =
     (case OfferManager.SetOffer env now capacity om of
        (False, om') \<Rightarrow> (False, om', False)
      | (True, om') \<Rightarrow> (True, om', True))"

section \<open>Receiving\<close>

text \<open>
  One round of \<^verbatim>\<open>omniSubscriptionHandler\<close> on what \<^verbatim>\<open>Next\<close> returns: a sender and data, or an error, with
  which the message is nil and its sender is read nevertheless.  That an offer has expired is
  only logged.
\<close>

definition handle_offer :: "gotime \<Rightarrow> json option \<Rightarrow> event option" where
  "handle_offer now payload =
     (case payload of
        None \<Rightarrow> None
      | Some p \<Rightarrow>
          (case json_to_Offer zero_Offer p of
             None \<Rightarrow> None
           | Some x \<Rightarrow>
               if Before (add_secs (o_Timestamp x) 180) now then Some (OfferPub x)
               else Some (OfferPub x)))"

definition handle_contracts :: "json option \<Rightarrow> event option" where
  "handle_contracts payload =
     (case payload of
        None \<Rightarrow> None
      | Some p \<Rightarrow>
          (case json_to_contract_payload p of
             None \<Rightarrow> None
           | Some pld \<Rightarrow> Some (ContractPub (cp_Multiaddr pld) (cp_Contracts pld))))"

definition omniSubscriptionHandler ::
  "node_env \<Rightarrow> gotime \<Rightarrow> (gostring \<times> disk_file) option \<Rightarrow> panic + event option"
where
  "omniSubscriptionHandler env now subMsg =
     (case subMsg of
        None \<Rightarrow> Inl NilDereference
      | Some (from_peer, data) \<Rightarrow>
          if from_peer = n_ID env then Inr None
          else (case data of
                  RawFile _ \<Rightarrow> Inr None
                | JsonFile j \<Rightarrow>
                    (case json_to_OmniMessageIn j of
                       None \<Rightarrow> Inr None
                     | Some omi \<Rightarrow>
                         if omi_Type omi = OmniMessageTypeOfferPub then Inr (handle_offer now (omi_Payload omi))
                         else if omi_Type omi = OmniMessageTypeContractPub
                         then Inr (handle_contracts (omi_Payload omi))
                         else Inr None)))"

section \<open>From publication to event\<close>

lemma message_roundtrip:
  assumes "utf8_coerce type = type"
  shows "json_of_OmniMessageOut type (Some p) = Some (JObj [(''type'', JStr type), (''payload'', p)])"
    and "json_to_OmniMessageIn (JObj [(''type'', JStr type), (''payload'', p)]) =
      Some \<lparr>omi_Type = type, omi_Payload = Some p\<rparr>"
  using assms by (simp_all add: json_of_OmniMessageOut_def json_of_string_def json_to_OmniMessageIn_def)

lemma type_utf8 [simp]:
  "utf8_coerce OmniMessageTypeOfferPub = OmniMessageTypeOfferPub"
  "utf8_coerce OmniMessageTypeContractPub = OmniMessageTypeContractPub"
  "OmniMessageTypeContractPub \<noteq> OmniMessageTypeOfferPub"
  by (simp_all add: utf8_coerce_ascii OmniMessageType_defs code_def)

text \<open>The offer as JSON carries it: text coerced to UTF-8, the monotonic clock reading dropped.\<close>

definition json_image :: "Offer \<Rightarrow> Offer" where
  "json_image x = \<lparr>o_Multiaddr = utf8_coerce (o_Multiaddr x), o_Capacity = o_Capacity x,
     o_Timestamp = (o_Timestamp x)\<lparr>t_mono := None\<rparr>, o_Signature = utf8_coerce (o_Signature x)\<rparr>"

lemma json_Offer_image:
  assumes "json_of_Offer x = Some j" and "t_nsec (o_Timestamp x) < 1000000000"
  shows "json_to_Offer old j = Some (json_image x)"
proof -
  obtain t where t: "json_of_time (o_Timestamp x) = Some t"
    "j = JObj [(''multiaddr'', json_of_string (o_Multiaddr x)),
       (''capacity'', json_of_uint32 (o_Capacity x)), (''timestamp'', t),
       (''signature'', json_of_string (o_Signature x))]"
    using assms(1) by (auto simp: json_of_Offer_def split: option.splits)
  with json_time_of_time [OF t(1) assms(2)] show ?thesis
    by (simp add: json_to_Offer_def json_image_def)
qed

text \<open>C36: An advertised offer reaches the other nodes as an offer event with the same address, capacity
  and time, whatever their clocks say: an offer that expired long ago is announced as well.  Its
  signature arrives as the text JSON makes of its bytes, so it is the signature that was made only
  if that was valid UTF-8.\<close>

theorem advertised_offer_received:
  assumes "advertiseOffer_tick env now om = (Some j, om')" and "t_nsec now < 1000000000"
    and "n_ID env \<noteq> n_ID env'"
  shows "\<exists>x. om_offer om' = x \<and> o_Timestamp x = now \<and>
    omniSubscriptionHandler env' later (Some (n_ID env, JsonFile j)) =
      Inr (Some (OfferPub (json_image x))) \<and>
    (o_Signature (json_image x) = o_Signature x) = valid_utf8 (o_Signature x)"
proof -
  have om': "om' = updateOffer env now om"
    and j: "publishOmniMessage OmniMessageTypeOfferPub (json_of_Offer (om_offer om')) = Some j"
    using assms(1) by (auto simp: advertiseOffer_tick_def GetOffer_def Let_def)
  have now: "o_Timestamp (om_offer om') = now"
    unfolding om' by (simp add: updateOffer_def Let_def split: option.splits)
  obtain p where p: "json_of_Offer (om_offer om') = Some p"
    "j = JObj [(''type'', JStr OmniMessageTypeOfferPub), (''payload'', p)]"
    using j by (auto simp: publishOmniMessage_def json_of_OmniMessageOut_def json_of_string_def
        split: option.splits)
  have "json_to_Offer zero_Offer p = Some (json_image (om_offer om'))"
    by (rule json_Offer_image [OF p(1)]) (simp add: now assms(2))
  then show ?thesis
    using now assms(3)
    by (simp add: p(2) omniSubscriptionHandler_def message_roundtrip(2) handle_offer_def)
      (simp add: json_image_def valid_utf8_def)
qed

lemma json_Contracts_roundtrip:
  assumes "\<forall>c\<in>set cs. json_wf_Contract c"
  shows "\<exists>js. json_all json_of_Contract cs = Some js \<and>
    (\<forall>old. json_elems json_to_Contract zero_Contract old js = Some cs)"
  using assms
proof (induction cs)
  case (Cons c cs)
  then obtain js where js: "json_all json_of_Contract cs = Some js"
    "\<And>old. json_elems json_to_Contract zero_Contract old js = Some cs" by auto
  obtain j where "json_of_Contract c = Some j" "\<And>old. json_to_Contract old j = Some c"
    using json_Contract_roundtrip [of c] Cons.prems by auto
  with js show ?case by simp
qed simp

lemma contracts_published:
  assumes "om_contracts om \<noteq> []" and "\<forall>c\<in>set (om_contracts om). json_wf_Contract c"
    and "valid_utf8 (n_Multiaddr env)" and "n_ID env \<noteq> n_ID env'"
  shows "\<exists>j. advertiseContracts_tick env om = Some j \<and>
    omniSubscriptionHandler env' later (Some (n_ID env, JsonFile j)) =
      Inr (Some (ContractPub (n_Multiaddr env) (om_contracts om)))"
proof -
  obtain js where js: "json_all json_of_Contract (om_contracts om) = Some js"
    "\<And>old. json_elems json_to_Contract zero_Contract old js = Some (om_contracts om)"
    using json_Contracts_roundtrip [OF assms(2)] by auto
  let ?p = "JObj [(''multiaddr'', json_of_string (n_Multiaddr env)), (''contracts'', JArr js)]"
  have "advertiseContracts_tick env om =
      Some (JObj [(''type'', JStr OmniMessageTypeContractPub), (''payload'', ?p)])"
    using assms(1) js(1)
    by (simp add: advertiseContracts_tick_def GetContracts_def publishOmniMessage_def
        json_of_contract_payload_def json_of_Contracts_def message_roundtrip(1) Let_def)
  moreover have "json_to_contract_payload ?p =
      Some \<lparr>cp_Multiaddr = n_Multiaddr env, cp_Contracts = om_contracts om\<rparr>"
    using js(2) assms(3) by (simp add: json_to_contract_payload_def valid_utf8_def)
  ultimately show ?thesis
    using assms(4) by (simp add: omniSubscriptionHandler_def message_roundtrip(2) handle_contracts_def)
qed

text \<open>A node's contracts reach the other nodes exactly as it holds them, under its address: if every
  contract is well-formed JSON data, a tick publishes a message that every other node turns into
  the contract event with these contracts.\<close>

theorem advertised_contracts_received:
  assumes "om_contracts om \<noteq> []" and "\<forall>c\<in>set (om_contracts om). json_wf_Contract c"
    and "valid_utf8 (n_Multiaddr env)" and "n_ID env \<noteq> n_ID env'"
  shows "\<exists>j. advertiseContracts_tick env om = Some j \<and>
    omniSubscriptionHandler env' later (Some (n_ID env, JsonFile j)) =
      Inr (Some (ContractPub (n_Multiaddr env) (om_contracts om)))"
  by (rule contracts_published [OF assms])

text \<open>A search that hears the publication, for all of the owner's contracts or for one cid.\<close>

lemma publication_found:
  assumes "om_contracts om \<noteq> []" and "\<forall>c\<in>set (om_contracts om). json_wf_Contract c"
    and "valid_utf8 (n_Multiaddr env)" and "n_ID env \<noteq> n_ID owner"
    and "\<not> Before (add_secs t0 60) t1" and "Before (add_secs t0 60) t2" and "dt = 42 \<or> cid = []"
  shows "\<exists>j evt ok h'. advertiseContracts_tick env om = Some j \<and>
    omniSubscriptionHandler owner later (Some (n_ID env, JsonFile j)) = Inr (Some evt) \<and>
    RetrieveDataV2 owner dt cid deindex t0 [(t1, Some evt), (t2, None)] h =
      Some (Inr (ok, map c_Cid (mine (n_ID owner) cid (om_contracts om)), h', True))"
proof -
  let ?evt = "ContractPub (n_Multiaddr env) (om_contracts om)"
  obtain j where j: "advertiseContracts_tick env om = Some j"
    "omniSubscriptionHandler owner later (Some (n_ID env, JsonFile j)) = Inr (Some ?evt)"
    using contracts_published [OF assms(1-4)] by blast
  let ?found = "map ApiContract_of (mine (n_ID owner) cid (om_contracts om))"
  have listening: "(dt \<noteq> 42 \<and> cid \<noteq> []) = False" using assms(7) by blast
  have "listen (add_secs t0 60) (n_ID owner) cid {} [] [(t1, Some ?evt), (t2, None)] = Some (Inr ?found)"
    using assms(5,6) by (simp add: listen_eq heard_simps)
  moreover have "map ac_Cid (map ApiContract_of cs) = map c_Cid cs" for cs
    by (induction cs) (simp_all add: ApiContract_of_def)
  moreover obtain ok h' where "dei_all owner deindex ?found h = (ok, h')" by fastforce
  ultimately have "RetrieveDataV2 owner dt cid deindex t0 [(t1, Some ?evt), (t2, None)] h =
      Some (Inr (ok, map c_Cid (mine (n_ID owner) cid (om_contracts om)), h', True))"
    unfolding RetrieveDataV2_def listening by (simp del: listen.simps)
  with j show ?thesis by blast
qed

text \<open>The owner finds what a node hosts for it: if a node's contracts are published while the owner
  listens, the owner's search returns the cids of exactly its own contracts among them.\<close>

theorem hosted_data_found:
  assumes "om_contracts om \<noteq> []" and "\<forall>c\<in>set (om_contracts om). json_wf_Contract c"
    and "valid_utf8 (n_Multiaddr env)" and "n_ID env \<noteq> n_ID owner"
    and "\<not> Before (add_secs t0 60) t1" and "Before (add_secs t0 60) t2"
  shows "\<exists>j evt ok h'. advertiseContracts_tick env om = Some j \<and>
    omniSubscriptionHandler owner later (Some (n_ID env, JsonFile j)) = Inr (Some evt) \<and>
    RetrieveDataV2 owner dt [] deindex t0 [(t1, Some evt), (t2, None)] h =
      Some (Inr (ok, [c_Cid c. c \<leftarrow> om_contracts om, c_OwnerID c = n_ID owner], h', True))"
proof -
  have "map c_Cid (mine ID [] cs) = [c_Cid c. c \<leftarrow> cs, c_OwnerID c = ID]" for ID cs
    by (induction cs) (simp_all add: mine_def)
  with publication_found [OF assms, of dt "[]" later deindex h] show ?thesis by simp
qed

section \<open>Witnesses\<close>

definition demo_peer :: node_env where
  "demo_peer = demo_env\<lparr>n_ID := ''QmOwner''\<rparr>"

lemma demo_ids: "n_ID demo_env \<noteq> n_ID demo_peer"
  by (simp add: demo_env_def demo_peer_def)

lemma demo_multiaddr_utf8: "valid_utf8 (n_Multiaddr demo_env)"
  by (rule valid_utf8_ascii) (simp add: demo_env_def code_def)

theorem advertised_contracts_received_witness:
  "\<exists>j. advertiseContracts_tick demo_env (demo_om [demo_contract ''a'' 5 200] 10) = Some j \<and>
    omniSubscriptionHandler demo_peer (time_Unix 100) (Some (n_ID demo_env, JsonFile j)) =
      Inr (Some (ContractPub (n_Multiaddr demo_env) [demo_contract ''a'' 5 200]))"
  using advertised_contracts_received [of "demo_om [demo_contract ''a'' 5 200] 10" demo_env demo_peer]
    demo_ids demo_multiaddr_utf8 json_wf_demo by (simp add: demo_om_def)

theorem hosted_data_found_witness:
  "\<exists>evt ok h'. RetrieveDataV2 demo_peer 42 [] False (time_Unix 100)
     [(time_Unix 120, Some evt), (time_Unix 170, None)] [] = Some (Inr (ok, [''a''], h', True))"
proof -
  have "\<not> Before (add_secs (time_Unix 100) 60) (time_Unix 120)"
    "Before (add_secs (time_Unix 100) 60) (time_Unix 170)"
    by code_simp+
  from hosted_data_found [OF _ _ demo_multiaddr_utf8 demo_ids this,
      of "demo_om [demo_contract ''a'' 5 200] 10" "time_Unix 100" 42 False "[]"]
  show ?thesis
    using json_wf_demo by (fastforce simp: demo_om_def demo_contract_def demo_peer_def)
qed

theorem advertised_offer_received_witness:
  "\<exists>j x. omniSubscriptionHandler demo_peer (time_Unix 90000) (Some (n_ID demo_env, JsonFile j)) =
      Inr (Some (OfferPub x)) \<and> o_Timestamp x = time_Unix 100 \<and> o_Signature x = ''sig''"
proof -
  let ?now = "time_Unix 100"
  have "json_wf_time ?now"
    by (simp add: json_wf_time_def Year_def Date_def abs_sec_def year_yday_def Let_def
        time_Unix_def Unix_def split: prod.splits)
  then obtain t where "json_of_time ?now = Some t" using json_wf_time_roundtrip by blast
  moreover have x: "om_offer (updateOffer demo_env ?now (demo_om [] 10)) =
      \<lparr>o_Multiaddr = n_Multiaddr demo_env, o_Capacity = 10, o_Timestamp = ?now, o_Signature = ''sig''\<rparr>"
    by (simp add: updateOffer_def demo_env_def demo_om_def zero_Offer_def)
  ultimately obtain j where j: "advertiseOffer_tick demo_env ?now (demo_om [] 10) =
      (Some j, updateOffer demo_env ?now (demo_om [] 10))"
    by (simp add: advertiseOffer_tick_def GetOffer_def json_of_Offer_def publishOmniMessage_def
        json_of_OmniMessageOut_def)
  have "t_nsec ?now < 1000000000" by (simp add: time_Unix_def)
  from advertised_offer_received [OF j this demo_ids]
  have "omniSubscriptionHandler demo_peer (time_Unix 90000) (Some (n_ID demo_env, JsonFile j)) =
      Inr (Some (OfferPub (json_image (om_offer (updateOffer demo_env ?now (demo_om [] 10))))))"
    by blast
  moreover have "utf8_coerce ''sig'' = ''sig''" by (rule utf8_coerce_ascii) (simp add: code_def)
  then have "o_Timestamp (json_image (om_offer (updateOffer demo_env ?now (demo_om [] 10)))) = ?now"
    "o_Signature (json_image (om_offer (updateOffer demo_env ?now (demo_om [] 10)))) = ''sig''"
    by (simp_all add: x json_image_def) (simp add: time_Unix_def)
  ultimately show ?thesis by blast
qed

end
