(* ===== verification/NodeCore.thy ===== *)
theory NodeCore
  imports OmniManager SeekStorage
begin

text \<open>
  The node (\<^verbatim>\<open>node/node.go\<close>): the objects it is made of and how starting and bootstrapping wire them,
  the calls it offers, the messages that arrive for it and what it publishes.  Creating the libp2p
  host, the pubsub and the routing table is done by libraries: what they return is a record of
  values.
\<close>

section \<open>Objects\<close>

text \<open>
  The connector, the omni manager and the node hold pointers to one offer manager, which all of
  them change; it lives in a store, at an address.  The other objects are never assigned to after
  the wiring, so a pointer to one of them is the object.
\<close>

type_synonym ref = nat

record Connector =
  cn_host :: gostring                      \<comment> \<open>id of the host whose streams it handles\<close>
  cn_protocol :: gostring
  cn_offerManager :: ref

record ContractManager =
  cm_connector :: Connector

record OmniManager =
  omm_contractManager :: "ContractManager option"
  omm_offerManager :: "ref option"
  omm_topic :: topic_state

text \<open>The subscriptions \<^verbatim>\<open>joinEvents\<close> passes on.\<close>

datatype source = FromConnector | FromOmniManager

record node =
  nd_bootstrapOnly :: bool
  nd_storeIdentity :: bool
  nd_host :: "gostring option"             \<comment> \<open>the host's id once there is a host\<close>
  nd_multiaddr :: gostring
  nd_connector :: "Connector option"
  nd_contractManager :: "ContractManager option"
  nd_offerManager :: "ref option"
  nd_omniManager :: "OmniManager option"
  nd_joined :: "source list"
  nd_looking :: bool                       \<comment> \<open>the goroutine that looks for peers runs\<close>
  nd_advertising :: bool                   \<comment> \<open>a goroutine that advertises the offer runs\<close>
  nd_heap :: "OfferManager list"

definition NewNode :: "bool \<Rightarrow> bool \<Rightarrow> node" where
  "NewNode bootstrapOnly storeIdentity = \<lparr>nd_bootstrapOnly = bootstrapOnly,
     nd_storeIdentity = storeIdentity, nd_host = None, nd_multiaddr = [], nd_connector = None,
     nd_contractManager = None, nd_offerManager = None, nd_omniManager = None, nd_joined = [],
     nd_looking = False, nd_advertising = False, nd_heap = []\<rparr>"

definition protocolID :: gostring where
  "protocolID = ''/lmaao''"

definition NewConnector :: "gostring \<Rightarrow> ref \<Rightarrow> Connector" where
  "NewConnector host om = \<lparr>cn_host = host, cn_protocol = protocolID, cn_offerManager = om\<rparr>"

definition NewContractManager :: "Connector \<Rightarrow> ContractManager" where
  "NewContractManager c = \<lparr>cm_connector = c\<rparr>"

definition NewOmniManager :: "ContractManager option \<Rightarrow> ref option \<Rightarrow> OmniManager" where
  "NewOmniManager cm om = \<lparr>omm_contractManager = cm, omm_offerManager = om, omm_topic = NotJoined\<rparr>"

text \<open>Reading and writing the object behind a pointer; a nil pointer has none.\<close>

definition deref :: "node \<Rightarrow> ref option \<Rightarrow> OfferManager option" where
  "deref n r =
     (case r of None \<Rightarrow> None | Some a \<Rightarrow> if a < length (nd_heap n) then Some (nd_heap n ! a) else None)"

definition assign :: "node \<Rightarrow> ref option \<Rightarrow> OfferManager \<Rightarrow> node" where
  "assign n r om = (case r of None \<Rightarrow> n | Some a \<Rightarrow> n\<lparr>nd_heap := (nd_heap n)[a := om]\<rparr>)"

definition ID :: "node \<Rightarrow> gostring" where
  "ID n = (case nd_host n of None \<Rightarrow> [] | Some i \<Rightarrow> i)"

definition Multiaddr :: "node \<Rightarrow> gostring" where
  "Multiaddr n = (case nd_host n of None \<Rightarrow> [] | Some _ \<Rightarrow> nd_multiaddr n)"

text \<open>What the managers ask the node for, at the moment.\<close>

definition env_of :: "node_env \<Rightarrow> node \<Rightarrow> node_env" where
  "env_of env n = env\<lparr>n_ID := ID n, n_Multiaddr := Multiaddr n\<rparr>"

section \<open>Starting\<close>

text \<open>What the libraries answer: the host's id and full addresses, the pubsub, the id's address.\<close>

record libs =
  lb_host :: "(gostring \<times> gostring list) option"
  lb_pubsub :: bool
  lb_p2pAddr :: bool
  lb_bootstrappers :: "gostring list \<Rightarrow> bool"    \<comment> \<open>every address names a peer\<close>
  lb_dht :: bool
  lb_dht_bootstrap :: bool
  lb_join :: bool
  lb_subscribe :: bool
  lb_connect :: "gostring \<Rightarrow> bool"
  lb_logger :: bool
  lb_listen :: "uint16 \<Rightarrow> bool"          \<comment> \<open>the API port is free\<close>
  lb_close :: bool
  lb_nil_publish :: bool                 \<comment> \<open>\<^verbatim>\<open>Publish\<close> on a nil topic returns\<close>

text \<open>The last part of \<^verbatim>\<open>Start\<close>, after which the managers are wired.\<close>

definition wire_managers :: "node_env \<Rightarrow> file_system \<Rightarrow> node \<Rightarrow> node" where
  "wire_managers env fs n =
     (let om = length (nd_heap n);
          n1 = n\<lparr>nd_heap := nd_heap n @ [NewOfferManager (env_of env n) fs []], nd_offerManager := Some om\<rparr>;
          c = NewConnector (ID n) om
      in n1\<lparr>nd_connector := Some c, nd_joined := nd_joined n @ [FromConnector],
            nd_contractManager := Some (NewContractManager c)\<rparr>)"

text \<open>
  \<^verbatim>\<open>Start\<close>: the nil error, the node and the key files.  A host without addresses is an index error.
  The offer manager reads the contracts of the new id from disk.
\<close>

definition Start ::
  "('priv, 'pub, 'z) crypto_scheme \<Rightarrow> libs \<Rightarrow> node_env \<Rightarrow> file_system \<Rightarrow> gostring \<Rightarrow> key_files \<Rightarrow> node \<Rightarrow>
   panic + bool \<times> node \<times> key_files"
where
  "Start cr lb env fs pkFileName kf n =
     (case getPrivateKey cr pkFileName kf of
        (None, kf') \<Rightarrow> Inr (False, n, kf')
      | (Some k, kf') \<Rightarrow>
          (case lb_host lb of
             None \<Rightarrow> Inr (False, n, kf')
           | Some (hostID, addrs) \<Rightarrow>
               (let n1 = n\<lparr>nd_host := Some hostID\<rparr>
                in if \<not> lb_pubsub lb then Inr (False, n1, kf')
                   else if \<not> lb_p2pAddr lb then Inr (False, n1, kf')
                   else (case addrs of
                           [] \<Rightarrow> Inl IndexOutOfRange
                         | a # _ \<Rightarrow>
                             (let n2 = n1\<lparr>nd_multiaddr := a\<rparr>
                              in if nd_bootstrapOnly n then Inr (True, n2, kf')
                                 else Inr (True, wire_managers env fs n2, kf'))))))"

text \<open>\<^verbatim>\<open>Bootstrap\<close>.  Joining the topic may fail; the error is not looked at.\<close>

definition join_topic :: "libs \<Rightarrow> node \<Rightarrow> node" where
  "join_topic lb n =
     (let omm = NewOmniManager (nd_contractManager n) (nd_offerManager n)
      in case JoinOmnidisk (lb_join lb) (lb_subscribe lb) of
           (_, topic, _) \<Rightarrow>
             n\<lparr>nd_omniManager := Some (omm\<lparr>omm_topic := topic\<rparr>),
               nd_joined := nd_joined n @ [FromOmniManager]\<rparr>)"

definition Bootstrap :: "libs \<Rightarrow> gostring list \<Rightarrow> node \<Rightarrow> bool \<times> node" where
  "Bootstrap lb nodeAddrs n =
     (if \<not> lb_bootstrappers lb nodeAddrs then (False, n)
      else if \<not> lb_dht lb then (False, n)
      else if \<not> lb_dht_bootstrap lb then (False, n)
      else if nd_bootstrapOnly n then (True, n)
      else (let n1 = join_topic lb n
            in if nodeAddrs = [] then (True, n1)
               else if \<not> list_all (lb_connect lb) nodeAddrs then (False, n1)
               else (True, n1\<lparr>nd_looking := True\<rparr>)))"

section \<open>Looking for peers\<close>

text \<open>A round of the peer search may replace the node's address by its last, public one.\<close>

definition refresh_multiaddr :: "gostring list \<Rightarrow> node \<Rightarrow> node" where
  "refresh_multiaddr addrs n =
     (if length addrs > 2
      then n\<lparr>nd_multiaddr := addrs ! (length addrs - 1) @ ''/p2p/'' @ ID n\<rparr> else n)"

text \<open>
  The goroutine: the rounds that have run, each with the host's addresses or the error of
  \<^verbatim>\<open>FindPeers\<close>; the node, the addresses printed and the minutes waited.
\<close>

fun look_for_peers ::
  "gostring list option list \<Rightarrow> bool \<Rightarrow> node \<Rightarrow> node \<times> gostring list \<times> nat"
where
  "look_for_peers [] printOnce n = (n, [], 0)"
| "look_for_peers (None # rounds) printOnce n = look_for_peers rounds printOnce n"
| "look_for_peers (Some addrs # rounds) printOnce n =
     (let n1 = refresh_multiaddr addrs n
      in if length addrs > 2 \<and> \<not> printOnce
         then (case look_for_peers rounds True n1 of (n2, out, waits) \<Rightarrow> (n2, Multiaddr n1 # out, Suc waits))
         else (case look_for_peers rounds printOnce n1 of (n2, out, waits) \<Rightarrow> (n2, out, Suc waits)))"

section \<open>Calls\<close>

text \<open>
  Results of the calls: an error, a value, or a nil dereference where a manager is missing.
  \<^verbatim>\<open>FindCustodians\<close> gives the contract whose search it starts; the search is \<open>SeekStorage\<close>.
\<close>

datatype 'a reply = Refused | Reply 'a

definition FindCustodians ::
  "node_env \<Rightarrow> node \<Rightarrow> gostring \<Rightarrow> int64 \<Rightarrow> uint32 \<Rightarrow> uint32 \<Rightarrow> gostring list \<Rightarrow>
   panic + Contract reply \<times> gostring list"
where
  "FindCustodians env n filepath expires cardinality dt h =
     (if nd_bootstrapOnly n then Inr (Refused, h)
      else if nd_contractManager n = None then Inl NilDereference
      else (case PrepareContract (env_of env n) filepath expires cardinality dt h of
              (None, h') \<Rightarrow> Inr (Refused, h')
            | (Some c, h') \<Rightarrow> Inr (Reply c, h')))"

text \<open>What \<^verbatim>\<open>FindCustodians\<close> returns once the search for its contract has ended.\<close>

definition custodians_link :: "Contract \<Rightarrow> seek \<Rightarrow> gostring option" where
  "custodians_link c s =
     (if sk_main s = MDone then Some (''https://ipfs.io/ipfs/'' @ c_Cid c) else None)"

definition RetrieveData ::
  "node_env \<Rightarrow> node \<Rightarrow> uint32 \<Rightarrow> gostring \<Rightarrow> bool \<Rightarrow> gotime \<Rightarrow> (gotime \<times> event option) list \<Rightarrow>
   gostring list \<Rightarrow> (panic + (gostring list) reply \<times> gostring list) option"
where
  "RetrieveData env n dt cid deindex now rounds h =
     (if nd_bootstrapOnly n then Some (Inr (Refused, h))
      else if nd_contractManager n = None then Some (Inl NilDereference)
      else (case RetrieveDataV2 (env_of env n) dt cid deindex now rounds h of
              None \<Rightarrow> None
            | Some (Inl p) \<Rightarrow> Some (Inl p)
            | Some (Inr (False, _, h', _)) \<Rightarrow> Some (Inr (Refused, h'))
            | Some (Inr (True, cids, h', _)) \<Rightarrow> Some (Inr (Reply cids, h'))))"

definition node_SetOffer ::
  "node_env \<Rightarrow> gotime \<Rightarrow> uint32 \<Rightarrow> node \<Rightarrow> panic + bool \<times> node"
where
  "node_SetOffer env now capacity n =
     (if nd_bootstrapOnly n then Inr (False, n)
      else (case nd_omniManager n of
              None \<Rightarrow> Inl NilDereference
            | Some omm \<Rightarrow>
                (case deref n (omm_offerManager omm) of
                   None \<Rightarrow> Inl NilDereference
                 | Some om \<Rightarrow>
                     (case SetOffer (env_of env n) now capacity om of
                        (ok, om', advertise) \<Rightarrow>
                          Inr (ok, (assign n (omm_offerManager omm) om')
                                 \<lparr>nd_advertising := nd_advertising n \<or> advertise\<rparr>)))))"

definition SubscribeToEvents :: "node \<Rightarrow> bool" where
  "SubscribeToEvents n = (if nd_bootstrapOnly n then False else True)"

section \<open>Streams and the topic\<close>

text \<open>An incoming stream of the connector's protocol; without a connector nobody handles it.\<close>

definition node_stream ::
  "('priv, 'pub, 'z) crypto_scheme \<Rightarrow> full_reader \<Rightarrow> node_env \<Rightarrow> gotime \<Rightarrow> byte list \<Rightarrow> node \<Rightarrow>
   (panic + event list \<times> byte list option \<times> node) option"
where
  "node_stream cr rd env now bs n =
     (case nd_connector n of
        None \<Rightarrow> None
      | Some c \<Rightarrow>
          (case deref n (Some (cn_offerManager c)) of
             None \<Rightarrow> Some (Inl NilDereference)
           | Some om \<Rightarrow>
               (case reader (env_of env n) cr rd now bs om of
                  Inl p \<Rightarrow> Some (Inl p)
                | Inr (evs, answer, om') \<Rightarrow> Some (Inr (evs, answer, assign n (Some (cn_offerManager c)) om')))))"

text \<open>
  What a tick of an advertising goroutine does: nothing, a call of \<^verbatim>\<open>Publish\<close> on the topic, or the same
  call on the topic that is still nil.
\<close>

datatype publication = Silent | OnTopic json | OnNilTopic json

definition publish_on :: "topic_state \<Rightarrow> json option \<Rightarrow> publication" where
  "publish_on topic data =
     (case data of None \<Rightarrow> Silent | Some j \<Rightarrow> if topic = Joined then OnTopic j else OnNilTopic j)"

definition node_advertiseOffer :: "node_env \<Rightarrow> gotime \<Rightarrow> node \<Rightarrow> publication \<times> node" where
  "node_advertiseOffer env now n =
     (case nd_omniManager n of
        None \<Rightarrow> (Silent, n)
      | Some omm \<Rightarrow>
          (case deref n (omm_offerManager omm) of
             None \<Rightarrow> (Silent, n)
           | Some om \<Rightarrow>
               if \<not> nd_advertising n then (Silent, n)
               else (case advertiseOffer_tick (env_of env n) now om of
                       (data, om') \<Rightarrow> (publish_on (omm_topic omm) data, assign n (omm_offerManager omm) om'))))"

text \<open>Contracts are advertised by a goroutine that joining the topic starts, if it succeeds.\<close>

definition node_advertiseContracts :: "node_env \<Rightarrow> node \<Rightarrow> publication" where
  "node_advertiseContracts env n =
     (case nd_omniManager n of
        None \<Rightarrow> Silent
      | Some omm \<Rightarrow>
          (case deref n (omm_offerManager omm) of
             None \<Rightarrow> Silent
           | Some om \<Rightarrow>
               if omm_topic omm \<noteq> Joined then Silent
               else publish_on (omm_topic omm) (advertiseContracts_tick (env_of env n) om)))"

section \<open>The wiring\<close>

text \<open>A started and bootstrapped node: one offer manager, which everything points to.\<close>

definition wired :: "node \<Rightarrow> OfferManager \<Rightarrow> topic_state \<Rightarrow> bool" where
  "wired n om topic \<longleftrightarrow>
     \<not> nd_bootstrapOnly n \<and> nd_heap n = [om] \<and> nd_offerManager n = Some 0 \<and>
     nd_connector n = Some (NewConnector (ID n) 0) \<and>
     nd_contractManager n = Some (NewContractManager (NewConnector (ID n) 0)) \<and>
     nd_omniManager n = Some ((NewOmniManager (nd_contractManager n) (nd_offerManager n))\<lparr>omm_topic := topic\<rparr>) \<and>
     nd_joined n = [FromConnector, FromOmniManager]"

lemmas wiring_defs = wire_managers_def join_topic_def NewNode_def NewConnector_def NewContractManager_def
  NewOmniManager_def deref_def assign_def

lemma assign_frame [simp]:
  "ID (assign n r om) = ID n" "Multiaddr (assign n r om) = Multiaddr n"
  "env_of env (assign n r om) = env_of env n"
  "ID (n\<lparr>nd_advertising := b\<rparr>) = ID n" "Multiaddr (n\<lparr>nd_advertising := b\<rparr>) = Multiaddr n"
  "nd_advertising (assign n r om) = nd_advertising n" "nd_looking (assign n r om) = nd_looking n"
  by (auto simp: assign_def env_of_def ID_def Multiaddr_def split: option.splits)

lemma wired_deref: "wired n om topic \<Longrightarrow> deref n (Some 0) = Some om"
  by (simp add: wired_def deref_def)

lemma wired_assign: "wired n om topic \<Longrightarrow> wired (assign n (Some 0) om') om' topic"
  using assign_frame(1) [of n "Some 0" om'] by (simp add: wired_def assign_def)

lemma wired_omm:
  "wired n om topic \<Longrightarrow> \<exists>omm. nd_omniManager n = Some omm \<and> omm_offerManager omm = Some 0 \<and> omm_topic omm = topic"
  by (simp add: wired_def NewOmniManager_def)

lemma wired_refresh: "wired n om topic \<Longrightarrow> wired (refresh_multiaddr addrs n) om topic"
  by (simp add: wired_def refresh_multiaddr_def ID_def)

lemma wired_SetOffer:
  assumes "wired n om topic" and "SetOffer (env_of env n) now capacity om = (ok, om', advertise)"
  shows "\<exists>n'. node_SetOffer env now capacity n = Inr (ok, n') \<and> wired n' om' topic \<and>
    env_of env n' = env_of env n \<and> nd_advertising n' = (nd_advertising n \<or> advertise)"
proof -
  obtain omm where "nd_omniManager n = Some omm" "omm_offerManager omm = Some 0"
    using wired_omm [OF assms(1)] by blast
  then have "node_SetOffer env now capacity n = Inr (ok, (assign n (Some 0) om')
      \<lparr>nd_advertising := nd_advertising n \<or> advertise\<rparr>)"
    using assms wired_deref [OF assms(1)] by (simp add: node_SetOffer_def wired_def)
  with wired_assign [OF assms(1), of om'] show ?thesis
    by (simp add: wired_def env_of_def)
qed

lemma wired_stream:
  assumes "wired n om topic"
  shows "node_stream cr rd env now bs n =
    (case reader (env_of env n) cr rd now bs om of
       Inl p \<Rightarrow> Some (Inl p)
     | Inr (evs, answer, om') \<Rightarrow> Some (Inr (evs, answer, assign n (Some 0) om')))"
  using assms wired_deref [OF assms] by (auto simp: node_stream_def wired_def NewConnector_def split: sum.splits)

lemma wired_advertise:
  assumes "wired n om topic"
  shows "node_advertiseOffer env now n =
    (if nd_advertising n
     then (case advertiseOffer_tick (env_of env n) now om of
             (data, om') \<Rightarrow> (publish_on topic data, assign n (Some 0) om'))
     else (Silent, n))"
    and "node_advertiseContracts env n =
    (if topic = Joined then publish_on topic (advertiseContracts_tick (env_of env n) om) else Silent)"
  using wired_omm [OF assms] wired_deref [OF assms]
  by (auto simp: node_advertiseOffer_def node_advertiseContracts_def)

section \<open>The address of a node\<close>

text \<open>The rounds of the search that found a public address.\<close>

definition public_rounds :: "gostring list option list \<Rightarrow> gostring list list" where
  "public_rounds rounds = [addrs. Some addrs \<leftarrow> rounds, length addrs > 2]"

lemma look_for_peers_eq:
  "look_for_peers rounds printOnce n =
     (let big = public_rounds rounds; full = (\<lambda>addrs. last addrs @ ''/p2p/'' @ ID n);
          own = (\<lambda>addrs. Multiaddr (n\<lparr>nd_multiaddr := full addrs\<rparr>))
      in (if big = [] then n else n\<lparr>nd_multiaddr := full (last big)\<rparr>,
          if printOnce then [] else map own (take 1 big),
          length (filter (\<lambda>r. r \<noteq> None) rounds)))"
proof (induction rounds printOnce n rule: look_for_peers.induct)
  case (3 addrs rounds printOnce n)
  have "length addrs > 2 \<Longrightarrow> addrs ! (length addrs - Suc 0) = last addrs" by (subst last_conv_nth) auto
  then show ?case
    using 3 by (auto simp: public_rounds_def refresh_multiaddr_def ID_def Multiaddr_def Let_def)
qed (simp_all add: public_rounds_def Let_def)

text \<open>C40: The peer search decides the address a node gives itself: the last round in which the host had more
  than two addresses, at whatever rounds before and after, leaves its last address with the
  node's id there, which from then on offers, requests and publications carry; the address is
  printed once, for the first such round; a minute passes after every round but one that failed,
  which is tried again without a pause.\<close>

theorem search_sets_address:
  "look_for_peers rounds False (n\<lparr>nd_host := Some hostID\<rparr>) =
     (let big = public_rounds rounds; full = (\<lambda>addrs. last addrs @ ''/p2p/'' @ hostID)
      in (n\<lparr>nd_host := Some hostID, nd_multiaddr := (if big = [] then nd_multiaddr n else full (last big))\<rparr>,
          map full (take 1 big), length (filter (\<lambda>r. r \<noteq> None) rounds))) \<and>
   n_Multiaddr (env_of env (fst (look_for_peers rounds False (n\<lparr>nd_host := Some hostID\<rparr>)))) =
     (if public_rounds rounds = [] then nd_multiaddr n
      else last (last (public_rounds rounds)) @ ''/p2p/'' @ hostID)"
  by (simp add: look_for_peers_eq Let_def ID_def Multiaddr_def env_of_def)

end
