(* ===== verification/NodeServing.thy ===== *)
theory NodeServing
  imports StreamHandlers NodeEvents NodeCore
begin

text \<open>
  The stream handlers and the event hub together: a handler announces its request by handing an event
  to the goroutine \<^verbatim>\<open>joinEvents\<close> of the connector (\<^verbatim>\<open>node/connector.go\<close>, \<^verbatim>\<open>node/node.go\<close>), which takes it only
  while it is in \<^verbatim>\<open>Next\<close> and then publishes it to the node's subscribers before it comes back for the
  next.  A second such goroutine does the same for what arrives on the topic.
\<close>

section \<open>State and steps\<close>

text \<open>\<^verbatim>\<open>joinEvents\<close>: in \<^verbatim>\<open>Next\<close>, waiting for the lock with an event in hand, publishing it.\<close>

datatype join_pc = JNext | JHolding event | JPublishing

record serving =
  sg_server :: server
  sg_hub :: hub
  sg_join :: "source \<Rightarrow> join_pc"

definition init_serving :: "OfferManager \<Rightarrow> serving" where
  "init_serving om = \<lparr>sg_server = init_server om, sg_hub = init_hub, sg_join = (\<lambda>_. JNext)\<rparr>"

inductive serving_step ::
  "node_env \<Rightarrow> full_reader \<Rightarrow> (nat \<Rightarrow> byte list) \<Rightarrow> serving \<Rightarrow> serving \<Rightarrow> bool"
  for env rd streams where
  serves: "server_step env rd streams (sg_server s) v \<Longrightarrow> sv_events v = sv_events (sg_server s) \<Longrightarrow>
    serving_step env rd streams s (s\<lparr>sg_server := v\<rparr>)"
| announces: "server_step env rd streams (sg_server s) v \<Longrightarrow>
    sv_events v = sv_events (sg_server s) @ [evt] \<Longrightarrow> sg_join s FromConnector = JNext \<Longrightarrow>
    serving_step env rd streams s
      (s\<lparr>sg_server := v, sg_join := (sg_join s)(FromConnector := JHolding evt)\<rparr>)"
| hears: "sv_crash (sg_server s) = None \<Longrightarrow> sg_join s FromOmniManager = JNext \<Longrightarrow>
    serving_step env rd streams s (s\<lparr>sg_join := (sg_join s)(FromOmniManager := JHolding evt)\<rparr>)"
| takes_lock: "sv_crash (sg_server s) = None \<Longrightarrow> sg_join s src = JHolding evt \<Longrightarrow> hub_pc (sg_hub s) = HubFree \<Longrightarrow>
    serving_step env rd streams s
      (s\<lparr>sg_hub := joinEvents_publish evt (sg_hub s), sg_join := (sg_join s)(src := JPublishing)\<rparr>)"
| hub_moves: "sv_crash (sg_server s) = None \<Longrightarrow> hub_step (sg_hub s) h \<Longrightarrow>
    (hub_pc h = HubFree) = (hub_pc (sg_hub s) = HubFree) \<Longrightarrow>
    serving_step env rd streams s (s\<lparr>sg_hub := h\<rparr>)"
| releases: "sv_crash (sg_server s) = None \<Longrightarrow> sg_join s src = JPublishing \<Longrightarrow>
    hub_pc (sg_hub s) = HubAt i evt \<Longrightarrow> i = length (hub_subs (sg_hub s)) \<Longrightarrow>
    serving_step env rd streams s
      (s\<lparr>sg_hub := (sg_hub s)\<lparr>hub_pc := HubFree\<rparr>, sg_join := (sg_join s)(src := JNext)\<rparr>)"

abbreviation serving_reachable ::
  "node_env \<Rightarrow> full_reader \<Rightarrow> (nat \<Rightarrow> byte list) \<Rightarrow> OfferManager \<Rightarrow> serving \<Rightarrow> bool"
where
  "serving_reachable env rd streams om \<equiv> reachable ((=) (init_serving om)) (serving_step env rd streams)"

section \<open>The invariant, and the two systems inside\<close>

text \<open>The lock is held by exactly the goroutine that publishes.\<close>

definition lock_ok :: "serving \<Rightarrow> bool" where
  "lock_ok s \<longleftrightarrow>
     (hub_pc (sg_hub s) = HubFree \<longleftrightarrow> (\<forall>src. sg_join s src \<noteq> JPublishing)) \<and>
     (\<forall>src src'. sg_join s src = JPublishing \<longrightarrow> sg_join s src' = JPublishing \<longrightarrow> src = src')"

definition asked :: "server \<Rightarrow> bool" where
  "asked v \<longleftrightarrow> (\<forall>i m. sv_handlers v i = HAnnounce m \<longrightarrow>
     (\<exists>r. m = MStorageRequest r) \<or> (\<exists>r. m = MRetrievalRequest r))"

definition serving_inv :: "serving \<Rightarrow> bool" where
  "serving_inv s \<longleftrightarrow> lock_ok s \<and> hub_inv (sg_hub s) \<and> asked (sg_server s)"

lemma asked_step: "server_step env rd streams v v' \<Longrightarrow> asked v \<Longrightarrow> asked v'"
  by (induction rule: server_step.induct)
    (auto simp: asked_def handler_receive_def split: option.splits if_splits sum.splits message.splits)

lemma lock_ok_step: "serving_step env rd streams s t \<Longrightarrow> lock_ok s \<Longrightarrow> lock_ok t"
proof (induction rule: serving_step.induct)
  case (releases s src i evt)
  then have "src' = src" if "sg_join s src' = JPublishing" for src'
    using that by (auto simp: lock_ok_def)
  with releases show ?case by (auto simp: lock_ok_def)
next
  case (announces s v evt)
  then show ?case by (auto simp: lock_ok_def) (metis join_pc.distinct(3))+
next
  case (hears s evt)
  then show ?case by (auto simp: lock_ok_def) (metis join_pc.distinct(3))+
qed (auto simp: lock_ok_def)

lemma hub_part:
  "serving_step env rd streams s t \<Longrightarrow> hub_step (sg_hub s) (sg_hub t) \<or> sg_hub t = sg_hub s"
  by (induction rule: serving_step.induct) (auto intro: hub_step.publish hub_step.unlock simp del: hub_defs)

lemma server_part:
  "serving_step env rd streams s t \<Longrightarrow>
   server_step env rd streams (sg_server s) (sg_server t) \<or> sg_server t = sg_server s"
  by (induction rule: serving_step.induct) auto

lemma serving_step_inv: "serving_step env rd streams s t \<Longrightarrow> serving_inv s \<Longrightarrow> serving_inv t"
  using lock_ok_step hub_part server_part hub_step_inv asked_step unfolding serving_inv_def by metis

lemma serving_init_inv: "serving_inv (init_serving om)"
  by (simp add: serving_inv_def lock_ok_def hub_inv_def asked_def init_serving_def init_hub_def init_server_def)

interpretation hub_of: simulation "(=) (init_serving om)" "serving_step env rd streams" serving_inv
  sg_hub "(=) init_hub" hub_step for om env rd streams
  by unfold_locales (use serving_init_inv serving_step_inv hub_part in \<open>auto simp: init_serving_def\<close>)

interpretation server_of: simulation "(=) (init_serving om)" "serving_step env rd streams" serving_inv
  sg_server "(=) (init_server om)" "server_step env rd streams" for om env rd streams
  by unfold_locales (use server_part in \<open>auto simp: init_serving_def\<close>)

section \<open>A stuck hub\<close>

lemma source_cases: "src = FromConnector \<or> src = FromOmniManager"
  by (cases src) simp_all

lemma stuck_step:
  assumes "serving_step env rd streams s t" and "hub_stuck (sg_hub s) i evt"
  shows "hub_stuck (sg_hub t) i evt \<and> hub_log (sg_hub t) = hub_log (sg_hub s) \<and>
    (if sg_join s FromConnector = JNext \<and> sg_join t FromConnector \<noteq> JNext
     then \<exists>e. sv_events (sg_server t) = sv_events (sg_server s) @ [e]
     else sv_events (sg_server t) = sv_events (sg_server s) \<and>
       (sg_join t FromConnector = JNext) = (sg_join s FromConnector = JNext))"
  using assms
proof (induction rule: serving_step.induct)
  case (hub_moves s h)
  then show ?case using hub_stuck_step [of "sg_hub s" h i evt] by auto
qed (auto simp: hub_stuck_def)

text \<open>A handler that has announced its request, by its position.\<close>

definition announced_handler :: "handler \<Rightarrow> bool" where
  "announced_handler h =
     (case h of HNew \<Rightarrow> False | HAnnounce _ \<Rightarrow> False | HEnd None \<Rightarrow> False | _ \<Rightarrow> True)"

definition newly_announced :: "serving \<Rightarrow> serving \<Rightarrow> nat set" where
  "newly_announced s t =
     {i. \<not> announced_handler (sv_handlers (sg_server s) i) \<and> announced_handler (sv_handlers (sg_server t) i)}"

lemma handler_announces:
  "server_step env rd streams v v' \<Longrightarrow>
   \<exists>j. \<forall>i. \<not> announced_handler (sv_handlers v i) \<longrightarrow> announced_handler (sv_handlers v' i) \<longrightarrow>
     i = j \<and> sv_events v' \<noteq> sv_events v"
proof (induction rule: server_step.induct)
  case (announces s i m)
  then show ?case by (intro exI [of _ i]) (cases m; simp add: announced_handler_def)
qed (auto simp: announced_handler_def handler_receive_def
    split: option.splits if_splits sum.splits message.splits)

lemma newly_announced_step:
  assumes "serving_step env rd streams s t"
  shows "\<exists>j. newly_announced s t \<subseteq> (if sv_events (sg_server t) = sv_events (sg_server s) then {} else {j})"
  using server_part [OF assms] handler_announces [of env rd streams "sg_server s" "sg_server t"]
  by (fastforce simp: newly_announced_def)

lemma newly_announced_trans: "newly_announced s u \<subseteq> newly_announced s t \<union> newly_announced t u"
  by (auto simp: newly_announced_def)

lemma stuck_run:
  assumes "(serving_step env rd streams)\<^sup>*\<^sup>* s t" and "hub_stuck (sg_hub s) i evt"
  shows "hub_stuck (sg_hub t) i evt \<and> hub_log (sg_hub t) = hub_log (sg_hub s) \<and>
    (\<exists>j. if sg_join s FromConnector = JNext \<and> sg_join t FromConnector \<noteq> JNext
     then newly_announced s t \<subseteq> {j}
     else newly_announced s t = {} \<and> (sg_join t FromConnector = JNext) = (sg_join s FromConnector = JNext))"
  using assms
proof (induction rule: rtranclp_induct)
  case base
  then show ?case by (simp add: newly_announced_def)
next
  case (step t u)
  then have stuck: "hub_stuck (sg_hub t) i evt" by simp
  obtain j where "newly_announced t u \<subseteq> (if sv_events (sg_server u) = sv_events (sg_server t) then {} else {j})"
    using newly_announced_step [OF step(2)] by blast
  note now = this stuck_step [OF step(2) stuck] newly_announced_trans [of s u t]
  show ?case
  proof (cases "sg_join t FromConnector = JNext \<and> sg_join u FromConnector \<noteq> JNext")
    case True
    with now have "newly_announced s u \<subseteq> newly_announced s t \<union> {j}" by (auto split: if_splits)
    with True step now(2) show ?thesis by auto
  next
    case False
    with now have "newly_announced s u \<subseteq> newly_announced s t"
      "(sg_join u FromConnector = JNext) = (sg_join t FromConnector = JNext)" by (auto split: if_splits)
    with step now(2) show ?thesis by (auto split: if_splits)
  qed
qed

section \<open>Serving as long as nobody was forgotten\<close>

lemma serving_run:
  "serving_step env rd streams s t \<Longrightarrow> (serving_step env rd streams)\<^sup>*\<^sup>* t u \<Longrightarrow>
   (serving_step env rd streams)\<^sup>*\<^sup>* s u"
  by (rule converse_rtranclp_into_rtranclp)

lemma join_moves:
  assumes "sv_crash (sg_server s) = None" and "hub_step (sg_hub s) h" and "hub_pc h \<noteq> HubFree"
    and "hub_pc (sg_hub s) \<noteq> HubFree"
  shows "serving_step env rd streams s (s\<lparr>sg_hub := h\<rparr>)"
  using assms by (intro serving_step.hub_moves) simp_all

text \<open>The rest of a round: the hub is free again, the publisher back in \<^verbatim>\<open>Next\<close>, the rest as before.\<close>

definition round_over :: "serving \<Rightarrow> serving \<Rightarrow> bool" where
  "round_over s t \<longleftrightarrow>
     sg_server t = sg_server s \<and> hub_pc (sg_hub t) = HubFree \<and> hub_subs (sg_hub t) = hub_subs (sg_hub s) \<and>
     (\<forall>src. sg_join t src = (if sg_join s src = JPublishing then JNext else sg_join s src))"

lemma round_ends:
  assumes "lock_ok s" and "sv_crash (sg_server s) = None" and "Forgotten \<notin> set (hub_subs (sg_hub s))"
    and "hub_pc (sg_hub s) = HubAt i evt" and "i \<le> length (hub_subs (sg_hub s))"
  shows "\<exists>t. (serving_step env rd streams)\<^sup>*\<^sup>* s t \<and> round_over s t"
  using assms
proof (induction "length (hub_subs (sg_hub s)) - i" arbitrary: i s)
  case 0
  then have i: "i = length (hub_subs (sg_hub s))" by simp
  obtain src where src: "sg_join s src = JPublishing" using 0(2,5) by (auto simp: lock_ok_def)
  have only: "sg_join s src' = JPublishing \<Longrightarrow> src' = src" for src' using 0(2) src by (auto simp: lock_ok_def)
  let ?t = "s\<lparr>sg_hub := (sg_hub s)\<lparr>hub_pc := HubFree\<rparr>, sg_join := (sg_join s)(src := JNext)\<rparr>"
  have "serving_step env rd streams s ?t" by (rule serving_step.releases [OF 0(3) src 0(5) i])
  moreover have "round_over s ?t" using src by (auto simp: round_over_def dest: only)
  ultimately show ?case by blast
next
  case (Suc n)
  then have i: "i < length (hub_subs (sg_hub s))" by simp
  then have "hub_subs (sg_hub s) ! i \<noteq> Forgotten" using Suc.prems(3) nth_mem by metis
  then have "\<exists>d. hub_step (sg_hub s) (next_publisher i evt d (sg_hub s))"
    using hub_step.deliver [OF Suc.prems(4) i] hub_step.skip_closed [OF Suc.prems(4) i]
    by (cases "hub_subs (sg_hub s) ! i") (simp_all del: hub_defs, blast+)
  then obtain d where h: "hub_step (sg_hub s) (next_publisher i evt d (sg_hub s))" by blast
  let ?u = "s\<lparr>sg_hub := next_publisher i evt d (sg_hub s)\<rparr>"
  have st: "serving_step env rd streams s ?u" by (rule join_moves [OF Suc.prems(2) h]) (simp_all add: Suc.prems(4))
  have "\<exists>t. (serving_step env rd streams)\<^sup>*\<^sup>* ?u t \<and> round_over ?u t"
    by (rule Suc.hyps(1) [of ?u "Suc i"]) (use Suc i lock_ok_step [OF st] in simp_all)
  then obtain t where t: "(serving_step env rd streams)\<^sup>*\<^sup>* ?u t" "round_over ?u t" by blast
  from t(2) have "round_over s t" by (simp add: round_over_def)
  with serving_run [OF st t(1)] show ?case by blast
qed

lemma connector_ready:
  assumes "serving_inv s" and "sv_crash (sg_server s) = None" and "Forgotten \<notin> set (hub_subs (sg_hub s))"
  shows "\<exists>t. (serving_step env rd streams)\<^sup>*\<^sup>* s t \<and> sg_server t = sg_server s \<and> sg_join t FromConnector = JNext"
proof -
  let ?run = "(serving_step env rd streams)\<^sup>*\<^sup>*"
  have round: "\<exists>t. ?run u t \<and> round_over u t"
    if u: "serving_inv u" "sg_server u = sg_server s" "hub_subs (sg_hub u) = hub_subs (sg_hub s)"
      "hub_pc (sg_hub u) \<noteq> HubFree" for u
  proof -
    obtain i evt where at: "hub_pc (sg_hub u) = HubAt i evt" using u(4) by (cases "hub_pc (sg_hub u)") simp_all
    moreover from this have "i \<le> length (hub_subs (sg_hub u))" using u(1) by (simp add: serving_inv_def hub_inv_def)
    ultimately show ?thesis using round_ends [of u i evt env rd streams] u assms(2,3) by (simp add: serving_inv_def)
  qed
  have publish: "\<exists>t. ?run u t \<and> sg_server t = sg_server s \<and> sg_join t FromConnector = JNext"
    if u: "serving_inv u" "sg_server u = sg_server s" "hub_subs (sg_hub u) = hub_subs (sg_hub s)"
      "hub_pc (sg_hub u) = HubFree" "sg_join u FromConnector = JHolding e" for u e
  proof -
    let ?v = "u\<lparr>sg_hub := joinEvents_publish e (sg_hub u), sg_join := (sg_join u)(FromConnector := JPublishing)\<rparr>"
    have st: "serving_step env rd streams u ?v"
      by (rule serving_step.takes_lock) (use u assms(2) in simp_all)
    have "serving_inv ?v" by (rule serving_step_inv [OF st u(1)])
    then obtain t where "?run ?v t" "round_over ?v t" using round [of ?v] u by auto
    then show ?thesis using serving_run [OF st, of t] u(2) by (auto simp: round_over_def)
  qed
  show ?thesis
  proof (cases "hub_pc (sg_hub s) = HubFree")
    case True
    then have "sg_join s FromConnector \<noteq> JPublishing" using assms(1) by (simp add: serving_inv_def lock_ok_def)
    then show ?thesis using publish [OF assms(1) refl refl True] by (cases "sg_join s FromConnector") auto
  next
    case False
    then obtain t where t: "?run s t" "round_over s t" using round [OF assms(1) refl refl] by blast
    have inv: "serving_inv t"
      using t(1) assms(1) by (induction rule: rtranclp_induct) (auto intro: serving_step_inv)
    show ?thesis
    proof (cases "sg_join t FromConnector")
      case (JHolding e)
      with publish [OF inv _ _ _ this] t(2) obtain u where "?run t u" "sg_server u = sg_server s"
        "sg_join u FromConnector = JNext" by (auto simp: round_over_def)
      then show ?thesis using rtranclp_trans [OF t(1)] by blast
    qed (use t in \<open>auto simp: round_over_def split: if_splits\<close>)
  qed
qed

lemma events_grow: "server_step env rd streams v v' \<Longrightarrow> \<exists>es. sv_events v' = sv_events v @ es"
  by (induction rule: server_step.induct) (auto simp: publishEvent_append [of _ "sv_events _"])

lemma events_grow_run: "(server_step env rd streams)\<^sup>*\<^sup>* v v' \<Longrightarrow> \<exists>es. sv_events v' = sv_events v @ es"
proof (induction rule: rtranclp_induct)
  case (step w x)
  then show ?case using events_grow [OF step(2)] by auto
qed simp

lemma lift_serves:
  "(server_step env rd streams)\<^sup>*\<^sup>* v v' \<Longrightarrow> sv_events v' = sv_events v \<Longrightarrow> sg_server s = v \<Longrightarrow>
   (serving_step env rd streams)\<^sup>*\<^sup>* s (s\<lparr>sg_server := v'\<rparr>)"
proof (induction arbitrary: s rule: converse_rtranclp_induct)
  case base
  then have "s\<lparr>sg_server := v'\<rparr> = s" by (cases s) simp
  then show ?case by simp
next
  case (step v w)
  obtain es es' where "sv_events w = sv_events v @ es" "sv_events v' = sv_events w @ es'"
    using events_grow [OF step(1)] events_grow_run [OF step(2)] by blast
  with step(4) have "sv_events w = sv_events v" by simp
  then have "serving_step env rd streams s (s\<lparr>sg_server := w\<rparr>)"
    using serving_step.serves [of env rd streams s w] step(1,5) by simp
  moreover have "(serving_step env rd streams)\<^sup>*\<^sup>* (s\<lparr>sg_server := w\<rparr>) (s\<lparr>sg_server := v'\<rparr>)"
    using step(3) [of "s\<lparr>sg_server := w\<rparr>"] step(4) \<open>sv_events w = sv_events v\<close> by simp
  ultimately show ?case by (rule serving_run)
qed

text \<open>A handler whose request is announced comes to its answer on its own.\<close>

lemma served_request:
  assumes "alone k (HServe m) om evs v" and "(\<exists>r. m = MStorageRequest r) \<or> (\<exists>r. m = MRetrievalRequest r)"
  shows "\<exists>w answer. (server_step env rd streams)\<^sup>*\<^sup>* v w \<and> sv_events w = evs \<and> sv_handlers w k = HEnd (Some answer)"
proof -
  have "\<exists>w answer om'. (server_step env rd streams)\<^sup>*\<^sup>* v w \<and> alone k (HAnswer answer) om' evs w"
    using assms(2)
  proof (elim disjE exE)
    fix r
    assume m: "m = MStorageRequest r"
    obtain resp om' where "ProcessStorageRequest env r om = (resp, om')" by fastforce
    from storage_run [OF assms(1) [unfolded m] this] show ?thesis by blast
  next
    fix r
    assume m: "m = MRetrievalRequest r"
    let ?a = "MRetrievalResponse (ProcessRetrievalRequest zero_time r (sv_om v))"
    have "server_step env rd streams v (move k (HAnswer ?a) v)"
      by (rule server_step.retrieves) (use assms(1) m in \<open>auto simp: alone_def\<close>)
    moreover have "alone k (HAnswer ?a) om evs (move k (HAnswer ?a) v)" using assms(1) by (simp add: alone_def)
    ultimately show ?thesis by blast
  qed
  then obtain w answer om' where w: "(server_step env rd streams)\<^sup>*\<^sup>* v w" "alone k (HAnswer answer) om' evs w" by blast
  have "server_step env rd streams w (move k (HEnd (Some answer)) w)"
    by (rule server_step.answers) (use w(2) in \<open>auto simp: alone_def\<close>)
  with w(1) have "(server_step env rd streams)\<^sup>*\<^sup>* v (move k (HEnd (Some answer)) w)"
    by (rule rtranclp.rtrancl_into_rtrancl)
  moreover have "sv_events (move k (HEnd (Some answer)) w) = evs"
    "sv_handlers (move k (HEnd (Some answer)) w) k = HEnd (Some answer)" using w(2) by (simp_all add: alone_def)
  ultimately show ?thesis by blast
qed

section \<open>Properties\<close>

text \<open>The handlers and the hub keep their properties when they run together: in every state the two can
  reach, the server is one its own system reaches and the hub is one its own system reaches, and
  exactly the goroutine that publishes holds the hub's lock.\<close>

theorem serving_refines_parts:
  "{s. serving_reachable env rd streams om s} \<subseteq>
   {s. server_reachable env rd streams om (sg_server s) \<and> hub_reachable (sg_hub s) \<and> lock_ok s}"
  using hub_of.simulated server_of.simulated hub_of.invariant by (auto simp: serving_inv_def)



section \<open>Witnesses\<close>

text \<open>A subscription is opened and forgotten, and one message arrives on the topic.\<close>

lemma stuck_reachable:
  "\<exists>s. serving_reachable env rd streams om s \<and> hub_stuck (sg_hub s) 0 evt \<and>
     sg_server s = init_server om \<and> hub_log (sg_hub s) = []"
proof -
  let ?a = "init_serving om"
  let ?b = "?a\<lparr>sg_hub := subscribeToEvents (sg_hub ?a)\<rparr>"
  let ?c = "?b\<lparr>sg_hub := (sg_hub ?b)\<lparr>hub_subs := (hub_subs (sg_hub ?b))[0 := Forgotten]\<rparr>\<rparr>"
  let ?d = "?c\<lparr>sg_join := (sg_join ?c)(FromOmniManager := JHolding evt)\<rparr>"
  let ?e = "?d\<lparr>sg_hub := joinEvents_publish evt (sg_hub ?d), sg_join := (sg_join ?d)(FromOmniManager := JPublishing)\<rparr>"
  note ds = init_serving_def init_server_def init_hub_def
  have "hub_step (sg_hub ?a) (sg_hub ?b)" using hub_step.subscribe [of "sg_hub ?a"] by (simp add: ds)
  then have "serving_step env rd streams ?a ?b" by (intro serving_step.hub_moves) (simp_all add: ds)
  moreover have "hub_step (sg_hub ?b) (sg_hub ?c)" using hub_step.forget [of 0 "sg_hub ?b"] by (simp add: ds)
  then have "serving_step env rd streams ?b ?c"
    using serving_step.hub_moves [of ?b "sg_hub ?c"] by (simp add: ds)
  moreover have "serving_step env rd streams ?c ?d" by (rule serving_step.hears) (simp_all add: ds)
  moreover have "serving_step env rd streams ?d ?e" by (rule serving_step.takes_lock) (simp_all add: ds)
  moreover have "serving_reachable env rd streams om ?a" by (rule reach_init) simp
  ultimately have "serving_reachable env rd streams om ?e" by (meson reach_step)
  moreover have "hub_stuck (sg_hub ?e) 0 evt" by (simp add: hub_stuck_def ds)
  moreover have "sg_server ?e = init_server om" "hub_log (sg_hub ?e) = []" by (simp_all add: ds)
  ultimately show ?thesis by blast
qed



end
