(* ===== verification/EndToEnd.thy ===== *)
theory EndToEnd
  imports OmniManager SeekStorage
begin

text \<open>
  Two nodes together: what \<^verbatim>\<open>Send\<close> reported to the owner of the data holds on the custodian, and what
  the custodian advertises afterwards leads the owner back to its data.
\<close>

lemma accepted_is_held:
  assumes "ProcessStorageRequest env r om = (resp, om')" and "SP_Done resp"
  shows "om_contracts om' = om_contracts om @ [SQ_Contract r]"
proof (cases rule: ProcessStorageRequest_cases [where env = env and request = r and om = om])
  case (committed om1 d om2)
  then show ?thesis
    using assms(1) psr_host_frame [OF committed(2)] psr_commit_frame [OF committed(3)] by simp
qed (use assms in auto)

text \<open>C15: Stored data is found again: if \<^verbatim>\<open>Send\<close> sets the slot of a storage request to 1, the custodian
  holds the contract, and when it advertises its contracts while the owner listens for the cid of
  the contract, the owner's search returns that cid and no other.\<close>

theorem stored_data_found:
  assumes reach: "reaches nt addr (\<lambda>bs. reader env cr (nt_reader nt) now bs om)"
    and fits: "PbMessage_Size (MarshalToProtobuf (MStorageRequest r)) \<le> read_limit"
      "\<forall>d. PbMessage_Size (MarshalToProtobuf (MStorageResponse
         \<lparr>SP_Multiaddr = n_Multiaddr env, SP_Done = d\<rparr>)) \<le> read_limit"
    and arrived: "trunc_message (MStorageRequest r) = MStorageRequest r'"
    and sent: "Send nt addr (MStorageRequest r) ack (StorageCell cell) = Inr (1, cell', evs)"
    and mine: "c_OwnerID (SQ_Contract r) = n_ID owner" "n_ID env \<noteq> n_ID owner"
    and wf: "\<forall>c\<in>set (om_contracts om @ [SQ_Contract r']). json_wf_Contract c"
      "valid_utf8 (n_Multiaddr env)"
    and times: "\<not> Before (add_secs t0 60) t1" "Before (add_secs t0 60) t2"
  shows "\<exists>resp om' j evt ok cids h'. ProcessStorageRequest env r' om = (resp, om') \<and>
    advertiseContracts_tick env om' = Some j \<and>
    omniSubscriptionHandler owner later (Some (n_ID env, JsonFile j)) = Inr (Some evt) \<and>
    RetrieveDataV2 owner 42 (c_Cid (SQ_Contract r)) deindex t0 [(t1, Some evt), (t2, None)] h =
      Some (Inr (ok, cids, h', True)) \<and>
    c_Cid (SQ_Contract r) \<in> set cids \<and> (c_Cid (SQ_Contract r) \<noteq> [] \<longrightarrow> set cids = {c_Cid (SQ_Contract r)})"
proof -
  let ?c = "SQ_Contract r'" and ?cid = "c_Cid (SQ_Contract r)"
  obtain d om' where proc: "ProcessStorageRequest env r' om =
      (\<lparr>SP_Multiaddr = n_Multiaddr env, SP_Done = d\<rparr>, om')"
    and "(if d then 1 else 0) = (1::int)"
    using storage_request_served [OF reach fits arrived, of ack cell] sent by auto
  then have d by (simp split: if_splits)
  with proc have held: "om_contracts om' = om_contracts om @ [?c]"
    using accepted_is_held [OF proc] by simp
  have c: "c_Cid ?c = ?cid" "c_OwnerID ?c = n_ID owner" using arrived mine(1) by auto
  have "om_contracts om' \<noteq> []" and "\<forall>c\<in>set (om_contracts om'). json_wf_Contract c"
    using held wf(1) by simp_all
  note found = publication_found [OF this wf(2) mine(2) times disjI1 [OF refl], of later ?cid deindex h]
  obtain j evt ok h' where f: "advertiseContracts_tick env om' = Some j"
    "omniSubscriptionHandler owner later (Some (n_ID env, JsonFile j)) = Inr (Some evt)"
    "RetrieveDataV2 owner 42 ?cid deindex t0 [(t1, Some evt), (t2, None)] h =
      Some (Inr (ok, map c_Cid (mine (n_ID owner) ?cid (om_contracts om')), h', True))"
    using found by (elim exE conjE) (rule that)
  have m: "?cid \<in> set (map c_Cid (mine (n_ID owner) ?cid (om_contracts om')))"
    "?cid \<noteq> [] \<longrightarrow> set (map c_Cid (mine (n_ID owner) ?cid (om_contracts om'))) = {?cid}"
    using held c by (auto simp: mine_def)
  show ?thesis by (intro exI conjI) (rule proc f m)+
qed

section \<open>Witness\<close>

lemma demo_accepts:
  "SP_Done (fst (ProcessStorageRequest demo_env demo_request (demo_om [] 10)))"
proof -
  have "storable (demo_contract ''a'' 5 200)"
    using json_wf_demo by (simp add: json_wf_Contract_def json_wf_time_def storable_def)
  then show ?thesis
    by (simp add: ProcessStorageRequest_def admits_def psr_host_def HostContent_def startIpfsDaemon_def
        ipfsPinAll_def ipfsPin_def executeCommand_def psr_commit_eq demo_request_def demo_om_def
        demo_env_def demo_contract_def Let_def)
qed

theorem stored_data_found_witness:
  "\<exists>evt ok cids h'. RetrieveDataV2 demo_peer 42 ''a'' False (time_Unix 100)
     [(time_Unix 120, Some evt), (time_Unix 170, None)] [] = Some (Inr (ok, cids, h', True)) \<and>
     set cids = {''a''}"
proof -
  let ?peer = "\<lambda>bs. reader demo_env demo_crypto demo_reader (time_Unix 100) bs (demo_om [] 10)"
  let ?nt = "demo_network ?peer" and ?cell = "\<lparr>SP_Multiaddr = [], SP_Done = False\<rparr>"
  have reach: "reaches ?nt ''b''
      (\<lambda>bs. reader demo_env demo_crypto (nt_reader ?nt) (time_Unix 100) bs (demo_om [] 10))"
    unfolding reader_demo_network by (rule reaches_demo)
  have fits: "\<forall>d. PbMessage_Size (MarshalToProtobuf (MStorageResponse
      \<lparr>SP_Multiaddr = n_Multiaddr demo_env, SP_Done = d\<rparr>)) \<le> read_limit"
    by (simp add: wire_sizes demo_env_def sovMsg_small word_less_nat_alt read_limit_def)
  have arrived: "trunc_message (MStorageRequest demo_request) = MStorageRequest demo_request"
    by (simp add: demo_request_def demo_contract_def trunc_time_def time_Unix_def)
  obtain d om' where d: "ProcessStorageRequest demo_env demo_request (demo_om [] 10) =
        (\<lparr>SP_Multiaddr = n_Multiaddr demo_env, SP_Done = d\<rparr>, om')"
      "Send ?nt ''b'' (MStorageRequest demo_request) 2 (StorageCell ?cell) =
        Inr (if d then 1 else 0, StorageCell \<lparr>SP_Multiaddr = n_Multiaddr demo_env, SP_Done = d\<rparr>,
             [StorageResponseEvt (n_Multiaddr demo_env) d])"
    using storage_request_served [OF reach demo_request_fits fits arrived, of 2 ?cell] by (elim exE conjE) (rule that)
  have d1: d using demo_accepts unfolding d(1) by simp
  have sent: "Send ?nt ''b'' (MStorageRequest demo_request) 2 (StorageCell ?cell) =
      Inr (1, StorageCell \<lparr>SP_Multiaddr = n_Multiaddr demo_env, SP_Done = d\<rparr>,
           [StorageResponseEvt (n_Multiaddr demo_env) d])"
    unfolding d(2) using d1 by simp
  have mine: "c_OwnerID (SQ_Contract demo_request) = n_ID demo_peer"
    by (simp add: demo_request_def demo_contract_def demo_peer_def)
  have wf: "\<forall>c\<in>set (om_contracts (demo_om [] 10) @ [SQ_Contract demo_request]). json_wf_Contract c"
    using json_wf_demo by (simp add: demo_om_def demo_request_def)
  have times: "\<not> Before (add_secs (time_Unix 100) 60) (time_Unix 120)"
    "Before (add_secs (time_Unix 100) 60) (time_Unix 170)"
    by code_simp+
  have cid: "c_Cid (SQ_Contract demo_request) = ''a''" by (simp add: demo_request_def demo_contract_def)
  from stored_data_found [OF reach demo_request_fits fits arrived sent mine demo_ids wf demo_multiaddr_utf8
      times, where later = "time_Unix 130" and deindex = False and h = "[]"]
  show ?thesis unfolding cid by (elim exE conjE, intro exI conjI) (assumption, simp)
qed

end
