(* ===== verification/Process.thy ===== *)
theory Process
  imports NodeCore EndToEnd
begin

text \<open>
  The process around a node: the API server (\<^verbatim>\<open>api/api.go\<close>), the command line (\<^verbatim>\<open>cmd/main.go\<close>) and the
  life of the process from \<^verbatim>\<open>main\<close> to the signal that ends it, with the calls, streams, ticks and
  rounds of its goroutines in between.
\<close>

section \<open>The API server\<close>

text \<open>The server is the node it serves.  Each handler's response message and the nil error; \<^verbatim>\<open>Ping\<close>'s
  message has no fields.\<close>

record Server =
  srv_node :: node

definition NewServer :: "node \<Rightarrow> Server" where
  "NewServer n = \<lparr>srv_node = n\<rparr>"

definition Ping :: "Server \<Rightarrow> unit \<times> bool" where
  "Ping s = ((), True)"

definition api_FindCustodians ::
  "node_env \<Rightarrow> node \<Rightarrow> gostring \<Rightarrow> int64 \<Rightarrow> uint32 \<Rightarrow> uint32 \<Rightarrow> gostring list \<Rightarrow> seek \<Rightarrow>
   (panic + gostring \<times> bool) option"
where
  "api_FindCustodians env n filepath expires cardinality dt h s =
     (case FindCustodians env n filepath expires cardinality dt h of
        Inl p \<Rightarrow> Some (Inl p)
      | Inr (Refused, _) \<Rightarrow> Some (Inr ([], False))
      | Inr (Reply c, _) \<Rightarrow>
          (case custodians_link c s of None \<Rightarrow> None | Some l \<Rightarrow> Some (Inr (l, True))))"

definition api_RetrieveData ::
  "node_env \<Rightarrow> node \<Rightarrow> uint32 \<Rightarrow> gostring \<Rightarrow> bool \<Rightarrow> gotime \<Rightarrow> (gotime \<times> event option) list \<Rightarrow>
   gostring list \<Rightarrow> (panic + gostring list \<times> bool) option"
where
  "api_RetrieveData env n dt cid deindex now rounds h =
     (case RetrieveData env n dt cid deindex now rounds h of
        None \<Rightarrow> None
      | Some (Inl p) \<Rightarrow> Some (Inl p)
      | Some (Inr (Refused, _)) \<Rightarrow> Some (Inr ([], False))
      | Some (Inr (Reply links, _)) \<Rightarrow> Some (Inr (links, True)))"

definition api_SetOffer ::
  "node_env \<Rightarrow> gotime \<Rightarrow> uint32 \<Rightarrow> node \<Rightarrow> panic + (bool \<times> bool) \<times> node"
where
  "api_SetOffer env now capacity n =
     (case node_SetOffer env now capacity n of
        Inl p \<Rightarrow> Inl p
      | Inr (False, n') \<Rightarrow> Inr ((False, False), n')
      | Inr (True, n') \<Rightarrow> Inr ((True, True), n'))"

text \<open>The streaming handler: what \<^verbatim>\<open>Next\<close> yields is sent until one of the two fails.\<close>

fun api_stream :: "(event option \<times> bool) list \<Rightarrow> ApiEvent list" where
  "api_stream [] = []"
| "api_stream ((None, _) # rounds) = []"
| "api_stream ((Some evt, sent) # rounds) =
     (if sent then Event_Marshal evt # api_stream rounds else [])"

definition api_SubscribeToEvents :: "node \<Rightarrow> (event option \<times> bool) list \<Rightarrow> ApiEvent list option" where
  "api_SubscribeToEvents n rounds = (if \<not> SubscribeToEvents n then None else Some (api_stream rounds))"

section \<open>The command line\<close>

record flags =
  fl_port :: uint64
  fl_api_port :: uint64
  fl_bootstrap_only :: bool
  fl_bootstrap_addrs :: gostring
  fl_id_store :: bool
  fl_privkey :: gostring

record cfg =
  cfg_NodePort :: uint16
  cfg_APIPort :: uint16
  cfg_BootstrapOnly :: bool
  cfg_PrivKey :: gostring
  cfg_BootstrapNodes :: "gostring list"
  cfg_StoreIdentity :: bool

definition parseArgs :: "(gostring \<Rightarrow> bool) \<Rightarrow> flags \<Rightarrow> cfg option" where
  "parseArgs is_multiaddr fl =
     (if fl_port fl = 0 then None
      else (let bs = (if fl_bootstrap_addrs fl \<noteq> []
                      then strings_Split (fl_bootstrap_addrs fl) (CHR '','') else [])
            in if \<not> list_all is_multiaddr bs then None
               else Some \<lparr>cfg_NodePort = ucast (fl_port fl), cfg_APIPort = ucast (fl_api_port fl),
                      cfg_BootstrapOnly = fl_bootstrap_only fl, cfg_PrivKey = fl_privkey fl,
                      cfg_BootstrapNodes = bs, cfg_StoreIdentity = fl_id_store fl\<rparr>))"

section \<open>The life of the process\<close>

text \<open>Died of a panic, returned from \<^verbatim>\<open>main\<close>, or waiting for a signal, serving the API at a port or not.\<close>

datatype process = Panicked | Exited | Running node "uint16 option"

definition Shutdown :: "libs \<Rightarrow> bool" where
  "Shutdown lb = lb_close lb"

text \<open>The deferred function of \<^verbatim>\<open>main\<close>.\<close>

definition leave_main :: "libs \<Rightarrow> process" where
  "leave_main lb = (if \<not> Shutdown lb then Panicked else Exited)"

definition main ::
  "('priv, 'pub, 'z) crypto_scheme \<Rightarrow> libs \<Rightarrow> node_env \<Rightarrow> file_system \<Rightarrow> (gostring \<Rightarrow> bool) \<Rightarrow> key_files \<Rightarrow>
   flags \<Rightarrow> process"
where
  "main cr lb env fs is_multiaddr kf fl =
     (case parseArgs is_multiaddr fl of
        None \<Rightarrow> Panicked
      | Some cfg \<Rightarrow>
          if \<not> lb_logger lb then Panicked
          else
          (case Start cr lb env fs (cfg_PrivKey cfg) kf
                  (NewNode (cfg_BootstrapOnly cfg) (cfg_StoreIdentity cfg)) of
             Inl _ \<Rightarrow> Panicked
           | Inr (False, _, _) \<Rightarrow> Panicked
           | Inr (True, n, _) \<Rightarrow>
               (case Bootstrap lb (cfg_BootstrapNodes cfg) n of
                  (False, _) \<Rightarrow> leave_main lb
                | (True, n') \<Rightarrow>
                    if cfg_APIPort cfg = 0 then Running n' None
                    else if \<not> lb_listen lb (cfg_APIPort cfg) then leave_main lb
                    else Running (srv_node (NewServer n')) (Some (cfg_APIPort cfg)))))"

text \<open>
  What happens to a running process.  The calls that search leave the node as it is.  A tick of the
  trimmer is one step here; its two halves are apart in \<open>StreamHandlers\<close>.
\<close>

datatype happening = SetOfferCall uint32 | Stream "byte list" | TrimmerTick | OfferTick | PeerRound |
  ServeFails | Interrupt

inductive process_step ::
  "('priv, 'pub, 'z) crypto_scheme \<Rightarrow> full_reader \<Rightarrow> libs \<Rightarrow> node_env \<Rightarrow> happening \<Rightarrow> process \<Rightarrow> process \<Rightarrow> bool"
  for cr rd lb env where
  set_offer: "node_SetOffer env now capacity n = Inr (ok, n') \<Longrightarrow>
    process_step cr rd lb env (SetOfferCall capacity) (Running n (Some port)) (Running n' (Some port))"
| set_offer_panics: "node_SetOffer env now capacity n = Inl p \<Longrightarrow>
    process_step cr rd lb env (SetOfferCall capacity) (Running n (Some port)) Panicked"
| stream: "node_stream cr rd env now bs n = Some (Inr (evs, answer, n')) \<Longrightarrow>
    process_step cr rd lb env (Stream bs) (Running n served) (Running n' served)"
| stream_panics: "node_stream cr rd env now bs n = Some (Inl p) \<Longrightarrow>
    process_step cr rd lb env (Stream bs) (Running n served) Panicked"
| trim: "deref n (nd_offerManager n) = Some om \<Longrightarrow> contractTrimmer_tick (env_of env n) clock om = Inr om' \<Longrightarrow>
    process_step cr rd lb env TrimmerTick (Running n served) (Running (assign n (nd_offerManager n) om') served)"
| trim_panics: "deref n (nd_offerManager n) = Some om \<Longrightarrow> contractTrimmer_tick (env_of env n) clock om = Inl p \<Longrightarrow>
    process_step cr rd lb env TrimmerTick (Running n served) Panicked"
| advertise: "node_advertiseOffer env now n = (pub, n') \<Longrightarrow> (\<forall>j. pub = OnNilTopic j \<longrightarrow> lb_nil_publish lb) \<Longrightarrow>
    process_step cr rd lb env OfferTick (Running n served) (Running n' served)"
| advertise_panics: "node_advertiseOffer env now n = (OnNilTopic j, n') \<Longrightarrow> \<not> lb_nil_publish lb \<Longrightarrow>
    process_step cr rd lb env OfferTick (Running n served) Panicked"
| look: "nd_looking n \<Longrightarrow>
    process_step cr rd lb env PeerRound (Running n served) (Running (refresh_multiaddr addrs n) served)"
| serve_fails: "process_step cr rd lb env ServeFails (Running n (Some port)) (Running n None)"
| interrupted: "process_step cr rd lb env Interrupt (Running n served) (leave_main lb)"

abbreviation process_moves ::
  "('priv, 'pub, 'z) crypto_scheme \<Rightarrow> full_reader \<Rightarrow> libs \<Rightarrow> node_env \<Rightarrow> process \<Rightarrow> process \<Rightarrow> bool"
where
  "process_moves cr rd lb env s t \<equiv> \<exists>ev. process_step cr rd lb env ev s t"

section \<open>The invariant\<close>

text \<open>A running node is bootstrap-only and has no managers, or is wired.\<close>

definition node_ok :: "bool \<Rightarrow> node \<Rightarrow> bool" where
  "node_ok bootstrapOnly n \<longleftrightarrow>
     (if bootstrapOnly
      then nd_bootstrapOnly n \<and> nd_connector n = None \<and> nd_contractManager n = None \<and>
           nd_offerManager n = None \<and> nd_omniManager n = None
      else (\<exists>om topic. wired n om topic))"

definition process_ok :: "bool \<Rightarrow> process \<Rightarrow> bool" where
  "process_ok bootstrapOnly s = (case s of Running n _ \<Rightarrow> node_ok bootstrapOnly n | _ \<Rightarrow> True)"

lemma loadFromDisk_offer: "om_isOfferSet (loadFromDisk env om) = om_isOfferSet om"
  by (simp add: loadFromDisk_def Let_def split: option.splits disk_file.splits)

lemma main_wired:
  assumes "main cr lb env fs is_multiaddr kf fl = Running n served"
  shows "if fl_bootstrap_only fl then node_ok True n
    else wired n (NewOfferManager (env_of env n) fs []) (fst (snd (JoinOmnidisk (lb_join lb) (lb_subscribe lb)))) \<and>
      \<not> nd_advertising n"
proof -
  obtain cfg where "parseArgs is_multiaddr fl = Some cfg"
    using assms by (auto simp: main_def split: option.splits)
  moreover from this have "cfg_BootstrapOnly cfg = fl_bootstrap_only fl"
    by (auto simp: parseArgs_def Let_def split: if_splits)
  ultimately show ?thesis
    using assms
    by (auto simp: main_def Start_def Bootstrap_def wiring_defs NewServer_def node_ok_def wired_def leave_main_def
          env_of_def ID_def Multiaddr_def Let_def
        split: option.splits sum.splits prod.splits bool.splits list.splits if_splits)
qed

lemma node_ok_step:
  "node_ok b n \<Longrightarrow> node_SetOffer env now capacity n = Inr (ok, n') \<Longrightarrow> node_ok b n'"
  "node_ok b n \<Longrightarrow> node_stream cr rd env now bs n = Some (Inr (evs, answer, n')) \<Longrightarrow> node_ok b n'"
  "node_ok b n \<Longrightarrow> node_advertiseOffer env now n = (pub, n') \<Longrightarrow> node_ok b n'"
  "node_ok b n \<Longrightarrow> node_ok b (assign n (nd_offerManager n) om')"
  "node_ok b n \<Longrightarrow> node_ok b (refresh_multiaddr addrs n)"
proof -
  assume ok: "node_ok b n"
  show "node_SetOffer env now capacity n = Inr (ok, n') \<Longrightarrow> node_ok b n'"
  proof (cases b)
    case False
    then obtain om topic where w: "wired n om topic" using ok by (auto simp: node_ok_def)
    obtain ok' om' adv where "SetOffer (env_of env n) now capacity om = (ok', om', adv)" by (rule prod_cases3)
    from wired_SetOffer [OF w this] show "node_SetOffer env now capacity n = Inr (ok, n') \<Longrightarrow> node_ok b n'"
      using False by (auto simp: node_ok_def)
  qed (use ok in \<open>simp add: node_ok_def node_SetOffer_def\<close>)
  show "node_stream cr rd env now bs n = Some (Inr (evs, answer, n')) \<Longrightarrow> node_ok b n'"
  proof (cases b)
    case False
    then obtain om topic where "wired n om topic" using ok by (auto simp: node_ok_def)
    then show "node_stream cr rd env now bs n = Some (Inr (evs, answer, n')) \<Longrightarrow> node_ok b n'"
      using False wired_assign by (fastforce simp: node_ok_def wired_stream split: sum.splits prod.splits)
  qed (use ok in \<open>simp add: node_ok_def node_stream_def\<close>)
  show "node_advertiseOffer env now n = (pub, n') \<Longrightarrow> node_ok b n'"
  proof (cases b)
    case False
    then obtain om topic where "wired n om topic" using ok by (auto simp: node_ok_def)
    then show "node_advertiseOffer env now n = (pub, n') \<Longrightarrow> node_ok b n'"
      using False wired_assign by (fastforce simp: node_ok_def wired_advertise(1) split: if_splits prod.splits)
  qed (use ok in \<open>simp add: node_ok_def node_advertiseOffer_def\<close>)
  show "node_ok b (assign n (nd_offerManager n) om')"
  proof (cases b)
    case False
    then obtain om topic where "wired n om topic" using ok by (auto simp: node_ok_def)
    moreover from this have "nd_offerManager n = Some 0" by (simp add: wired_def)
    ultimately show ?thesis using False wired_assign [of n om topic om'] by (auto simp: node_ok_def)
  qed (use ok in \<open>simp add: node_ok_def assign_def\<close>)
  show "node_ok b (refresh_multiaddr addrs n)"
  proof (cases b)
    case False
    then obtain om topic where "wired n om topic" using ok by (auto simp: node_ok_def)
    then show ?thesis using False wired_refresh [of n om topic addrs] by (auto simp: node_ok_def)
  qed (use ok in \<open>simp add: node_ok_def refresh_multiaddr_def\<close>)
qed

lemma process_step_ok: "process_step cr rd lb env ev s t \<Longrightarrow> process_ok b s \<Longrightarrow> process_ok b t"
  by (induction rule: process_step.induct)
    (auto simp: process_ok_def leave_main_def dest: node_ok_step)

lemma process_init_ok: "process_ok (fl_bootstrap_only fl) (main cr lb env fs is_multiaddr kf fl)"
proof (cases "main cr lb env fs is_multiaddr kf fl")
  case (Running n served)
  then show ?thesis using main_wired [OF Running] by (cases "fl_bootstrap_only fl") (auto simp: process_ok_def node_ok_def)
qed (simp_all add: process_ok_def)

interpretation process: invariant_system "(=) (main cr lb env fs is_multiaddr kf fl)"
  "process_moves cr rd lb env" "process_ok (fl_bootstrap_only fl)" for cr rd lb env fs is_multiaddr kf fl
  by unfold_locales (use process_init_ok process_step_ok in blast)+

abbreviation runs ::
  "('priv, 'pub, 'z) crypto_scheme \<Rightarrow> full_reader \<Rightarrow> libs \<Rightarrow> node_env \<Rightarrow> file_system \<Rightarrow> (gostring \<Rightarrow> bool) \<Rightarrow>
   key_files \<Rightarrow> flags \<Rightarrow> process \<Rightarrow> bool"
where
  "runs cr rd lb env fs is_multiaddr kf fl \<equiv>
     reachable ((=) (main cr lb env fs is_multiaddr kf fl)) (process_moves cr rd lb env)"

lemma running_node:
  assumes "runs cr rd lb env fs is_multiaddr kf fl (Running n served)"
  shows "node_ok (fl_bootstrap_only fl) n"
  using process.invariant [OF assms] by (simp add: process_ok_def)

section \<open>Properties\<close>

text \<open>C23: The wiring holds for life: whatever calls, streams, ticks and rounds a process that \<^verbatim>\<open>main\<close> started
  has been through, a bootstrap-only node still has no manager, and any other node has exactly one
  offer manager, which the calls, the incoming streams, the advertisements and the searches all
  work on, and both event sources are joined.\<close>

theorem wiring_kept:
  assumes "runs cr rd lb env fs is_multiaddr kf fl (Running n served)"
  shows "nd_bootstrapOnly n = fl_bootstrap_only fl \<and>
    (if fl_bootstrap_only fl
     then nd_offerManager n = None \<and> nd_connector n = None \<and> nd_contractManager n = None \<and> nd_omniManager n = None
     else \<exists>om omm c. nd_heap n = [om] \<and> nd_offerManager n = Some 0 \<and>
       nd_connector n = Some c \<and> cn_offerManager c = 0 \<and> cn_host c = ID n \<and> cn_protocol c = protocolID \<and>
       nd_contractManager n = Some \<lparr>cm_connector = c\<rparr> \<and>
       nd_omniManager n = Some omm \<and> omm_offerManager omm = Some 0 \<and>
       omm_contractManager omm = Some \<lparr>cm_connector = c\<rparr> \<and>
       nd_joined n = [FromConnector, FromOmniManager])"
  using running_node [OF assms]
  by (cases "fl_bootstrap_only fl")
    (auto simp: node_ok_def wired_def NewOmniManager_def NewContractManager_def NewConnector_def)

lemma node_ok_SetOffer: "node_ok b n \<Longrightarrow> \<exists>r. node_SetOffer env now capacity n = Inr r"
proof (cases b)
  case False
  assume "node_ok b n"
  with False obtain om topic where w: "wired n om topic" by (auto simp: node_ok_def)
  obtain ok om' adv where "SetOffer (env_of env n) now capacity om = (ok, om', adv)" by (rule prod_cases3)
  from wired_SetOffer [OF w this] show ?thesis by blast
qed (auto simp: node_ok_def node_SetOffer_def)

text \<open>C38: A node that serves the API never dereferences a missing manager: whatever the flags, and
  whatever the process has been through since \<^verbatim>\<open>main\<close> started it, no call of the API panics; on a
  bootstrap-only node every call is refused.\<close>

theorem served_calls_never_panic:
  assumes "runs cr rd lb env0 fs is_multiaddr kf fl (Running n served)"
  shows "(\<exists>r. FindCustodians env n filepath expires cardinality dt h = Inr r) \<and>
    (\<forall>p. RetrieveData env n dt cid deindex now rounds h \<noteq> Some (Inl p)) \<and>
    (\<exists>r. node_SetOffer env now capacity n = Inr r) \<and>
    (fl_bootstrap_only fl \<longrightarrow>
       FindCustodians env n filepath expires cardinality dt h = Inr (Refused, h) \<and>
       RetrieveData env n dt cid deindex now rounds h = Some (Inr (Refused, h)) \<and>
       node_SetOffer env now capacity n = Inr (False, n) \<and> \<not> SubscribeToEvents n)"
proof (cases "fl_bootstrap_only fl")
  case True
  then have "nd_bootstrapOnly n" using running_node [OF assms] by (simp add: node_ok_def)
  then show ?thesis by (auto simp: FindCustodians_def RetrieveData_def node_SetOffer_def SubscribeToEvents_def)
next
  case False
  then obtain om topic where w: "wired n om topic" using running_node [OF assms] by (auto simp: node_ok_def)
  have "RetrieveDataV2 (env_of env n) dt cid deindex now rounds h \<noteq> Some (Inl p)" for p
    by (auto simp: RetrieveDataV2_def listen_eq split: option.splits prod.splits)
  then show ?thesis
    using False w node_ok_SetOffer [OF running_node [OF assms]]
    by (auto simp: FindCustodians_def RetrieveData_def wired_def split: option.splits prod.splits sum.splits bool.splits)
qed

lemma SetOffer_outcome:
  "SetOffer env now capacity om = (ok, om', adv) \<Longrightarrow>
   om_isOfferSet om' \<and> o_Capacity (om_offer om') = capacity \<and> adv = ok \<and> ok = (\<not> om_isOfferSet om)"
  by (auto simp: SetOffer_def OfferManager.SetOffer_def split: prod.splits bool.splits if_splits)

lemma accepted_admits:
  assumes "ProcessStorageRequest env r om = (resp, om')" and "SP_Done resp"
  shows "admits om (SQ_Contract r)"
  by (cases rule: ProcessStorageRequest_cases [where env = env and request = r and om = om]) (use assms in auto)

lemma response_address: "ProcessStorageRequest env r om = (resp, om') \<Longrightarrow> SP_Multiaddr resp = n_Multiaddr env"
  by (cases rule: ProcessStorageRequest_cases [where env = env and request = r and om = om]) auto

lemma GetOffer_capacity: "o_Capacity (fst (GetOffer env now om)) = o_Capacity (om_offer om)"
  by (simp add: GetOffer_def updateOffer_def Let_def split: option.splits)


lemma advertised_offer_json:
  assumes "advertiseOffer_tick env now om = (data, om')" and "json_wf_time now"
  shows "data \<noteq> None"
proof -
  obtain t where "json_of_time now = Some t" using json_wf_time_roundtrip [OF assms(2)] by blast
  moreover have "o_Timestamp (fst (GetOffer env now om)) = now"
    by (simp add: GetOffer_def updateOffer_def Let_def split: option.splits)
  ultimately show ?thesis
    using assms(1) by (auto simp: advertiseOffer_tick_def publishOmniMessage_def json_of_OmniMessageOut_def
        json_of_Offer_def split: prod.splits)
qed


lemma tick_returns: "\<exists>om'. contractTrimmer_tick env clock om = Inr om'"
  using trim_apply_flags [of "expiry_flags clock (om_contracts om)" om env]
  by (auto simp: contractTrimmer_tick_def expired_indices_idx)

lemma advertise_nil:
  assumes "node_advertiseOffer env now n = (OnNilTopic j, n')"
  shows "\<exists>omm. nd_omniManager n = Some omm \<and> omm_topic omm \<noteq> Joined \<and> nd_advertising n"
  using assms by (auto simp: node_advertiseOffer_def publish_on_def split: option.splits prod.splits if_splits)

lemma stream_panic:
  assumes "node_ok b n" and "node_stream cr rd env now bs n = Some (Inl p)"
  shows "\<exists>inm. receive rd bs = Some inm \<and> (m_Type inm = 1 \<or> m_Type inm = 3) \<and> \<not> announced_present inm"
proof (cases b)
  case False
  then obtain om topic where "wired n om topic" using assms(1) by (auto simp: node_ok_def)
  then obtain p where "reader (env_of env n) cr rd now bs om = Inl p"
    using assms(2) by (auto simp: wired_stream split: sum.splits)
  then show ?thesis using reader_panics_iff by blast
qed (use assms in \<open>simp add: node_ok_def node_stream_def\<close>)


section \<open>Further behaviour of the calls and the flags\<close>

text \<open>Ports are taken modulo 65536: the node listens on, and the API is served at, the remainder of
  the given number, so an API port of a multiple of 65536 starts no API at all, and a node port of
  such a multiple passes the check for a missing port although it becomes 0.\<close>

theorem ports_truncated:
  assumes "parseArgs is_multiaddr fl = Some c" and "main cr lb env fs is_multiaddr kf fl = Running n served"
  shows "fl_port fl \<noteq> 0 \<and> unat (cfg_NodePort c) = unat (fl_port fl) mod 65536 \<and>
    (served = None) = (unat (fl_api_port fl) mod 65536 = 0) \<and>
    (\<forall>p. served = Some p \<longrightarrow> unat p = unat (fl_api_port fl) mod 65536)"
proof -
  have c: "fl_port fl \<noteq> 0" "cfg_NodePort c = ucast (fl_port fl)" "cfg_APIPort c = ucast (fl_api_port fl)"
    using assms(1) by (auto simp: parseArgs_def Let_def split: if_splits)
  have u: "unat (ucast k :: uint16) = unat k mod 65536" for k :: uint64
    by (simp add: unsigned_ucast_eq take_bit_eq_mod)
  have "served = (if cfg_APIPort c \<noteq> 0 then Some (cfg_APIPort c) else None)"
    using assms by (auto simp: main_def leave_main_def NewServer_def split: option.splits sum.splits prod.splits bool.splits if_splits)
  moreover have "cfg_APIPort c = 0 \<longleftrightarrow> unat (fl_api_port fl) mod 65536 = 0"
    using u [of "fl_api_port fl"] c(3) by (metis unat_0 unat_eq_zero)
  ultimately show ?thesis using c u by auto
qed

text \<open>C39: Setting an offer a second time through the API reports failure, yet the capacity is the new
  one afterwards, and everything else of the offer and the contracts is unchanged.\<close>

theorem second_offer_fails_but_applies:
  assumes "wired n om topic" and "om_isOfferSet om"
  shows "\<exists>n' om'. api_SetOffer env now capacity n = Inr ((False, False), n') \<and> wired n' om' topic \<and>
    om' = om\<lparr>om_offer := (om_offer om)\<lparr>o_Capacity := capacity\<rparr>\<rparr> \<and>
    (0 < capacity \<longrightarrow> admits om' (c\<lparr>c_Size := capacity - 1\<rparr>))"
proof -
  let ?om = "om\<lparr>om_offer := (om_offer om)\<lparr>o_Capacity := capacity\<rparr>\<rparr>"
  have "SetOffer (env_of env n) now capacity om = (False, ?om, False)"
    using assms(2) by (simp add: SetOffer_def OfferManager.SetOffer_def)
  from wired_SetOffer [OF assms(1) this] obtain n' where
    "api_SetOffer env now capacity n = Inr ((False, False), n')" "wired n' ?om topic"
    by (auto simp: api_SetOffer_def)
  moreover have "admits ?om (c\<lparr>c_Size := capacity - 1\<rparr>)" if "0 < capacity"
    using that assms(2) by (simp add: admits_def word_less_nat_alt unat_minus_one unat_gt_0)
  ultimately show ?thesis by blast
qed

text \<open>A failed encrypted upload is reported as a success: the search is made for a contract without
  content, and the caller gets a link without a cid.\<close>

theorem failed_upload_link:
  assumes "\<not> nd_bootstrapOnly n" and "nd_contractManager n \<noteq> None" and "encrypted dt"
    and "n_getPrivKey env = Some pk" and "fst (Ipfser (n_ipfs env) dt filepath pk h) = None"
    and "sk_main s = MDone"
  shows "api_FindCustodians env n filepath expires cardinality dt h s =
    Some (Inr (''https://ipfs.io/ipfs/'', True))"
  using assms
  by (auto simp: api_FindCustodians_def FindCustodians_def PrepareContract_def new_contract_def
      custodians_link_def env_of_def split: prod.splits)

section \<open>Witnesses\<close>

definition demo_libs :: "bool \<Rightarrow> bool \<Rightarrow> libs" where
  "demo_libs joins closes = \<lparr>lb_host = Some (''QmNode'', [''/ip4/10.0.0.1/tcp/4001/p2p/QmNode'']), lb_pubsub = True,
     lb_p2pAddr = True, lb_bootstrappers = (\<lambda>_. True), lb_dht = True, lb_dht_bootstrap = True,
     lb_join = joins, lb_subscribe = True, lb_connect = (\<lambda>_. True), lb_logger = True,
     lb_listen = (\<lambda>_. True), lb_close = closes, lb_nil_publish = False\<rparr>"

definition demo_flags :: "uint64 \<Rightarrow> flags" where
  "demo_flags port = \<lparr>fl_port = 69537, fl_api_port = port, fl_bootstrap_only = False,
     fl_bootstrap_addrs = [], fl_id_store = True, fl_privkey = []\<rparr>"

definition demo_keys :: key_files where
  "demo_keys = \<lparr>kf_files = Map.empty, kf_unreadable = (\<lambda>_. False), kf_creatable = True,
     kf_writable = True\<rparr>"

definition demo_cfg :: "uint16 \<Rightarrow> cfg" where
  "demo_cfg port = \<lparr>cfg_NodePort = 4001, cfg_APIPort = port, cfg_BootstrapOnly = False, cfg_PrivKey = [],
     cfg_BootstrapNodes = [], cfg_StoreIdentity = True\<rparr>"

lemma demo_parse: "parseArgs (\<lambda>_. True) (demo_flags port) = Some (demo_cfg (ucast port))"
  by (simp add: parseArgs_def demo_flags_def demo_cfg_def)

lemma demo_main:
  "\<exists>n. main demo_crypto (demo_libs joins closes) demo_env Map.empty (\<lambda>_. True) demo_keys (demo_flags port) =
    Running n (if ucast port = (0 :: uint16) then None else Some (ucast port))"
proof -
  have "getPrivateKey demo_crypto [] demo_keys =
      (Some ''QmNode'', demo_keys\<lparr>kf_files := [privKeyFileName \<mapsto> ''QmNode'']\<rparr>)"
    by (simp add: getPrivateKey_def store_new_key_def generateNewPrivKey_def demo_crypto_def demo_keys_def)
  then show ?thesis
    unfolding main_def demo_parse
    by (simp add: demo_cfg_def Start_def demo_libs_def Bootstrap_def wiring_defs NewServer_def Let_def)
qed

lemma demo_runs:
  "\<exists>n. runs demo_crypto demo_reader (demo_libs True True) demo_env Map.empty (\<lambda>_. True) demo_keys (demo_flags 8080)
    (Running n (Some 8080)) \<and> (\<exists>om. wired n om Joined)"
proof -
  obtain n where n: "main demo_crypto (demo_libs True True) demo_env Map.empty (\<lambda>_. True) demo_keys (demo_flags 8080) =
      Running n (Some 8080)"
    using demo_main [of True True 8080] by auto
  moreover from main_wired [OF n] have "\<exists>om. wired n om Joined"
    by (auto simp: demo_flags_def JoinOmnidisk_def demo_libs_def)
  moreover have "runs demo_crypto demo_reader (demo_libs True True) demo_env Map.empty (\<lambda>_. True) demo_keys (demo_flags 8080)
    (Running n (Some 8080))" by (rule reach_init) (rule n)
  ultimately show ?thesis by blast
qed

theorem wiring_kept_witness:
  "\<exists>n om. nd_heap (n::node) = [om] \<and> nd_offerManager n = Some 0 \<and> nd_joined n = [FromConnector, FromOmniManager]"
proof -
  obtain n where "runs demo_crypto demo_reader (demo_libs True True) demo_env Map.empty (\<lambda>_. True) demo_keys (demo_flags 8080)
    (Running n (Some 8080))" using demo_runs by (elim exE conjE)
  from wiring_kept [OF this] show ?thesis by (auto simp: demo_flags_def)
qed

theorem served_calls_never_panic_witness:
  "\<exists>n. nd_offerManager n \<noteq> None \<and> (\<exists>r. node_SetOffer demo_env (time_Unix 100) 10 (n::node) = Inr r)"
proof -
  obtain n om where n: "runs demo_crypto demo_reader (demo_libs True True) demo_env Map.empty (\<lambda>_. True) demo_keys
      (demo_flags 8080) (Running n (Some 8080))" "wired n om Joined"
    using demo_runs by (elim exE conjE)
  have "\<exists>r. node_SetOffer demo_env (time_Unix 100) 10 n = Inr r"
    by (rule served_calls_never_panic [OF n(1), THEN conjunct2, THEN conjunct2, THEN conjunct1])
  with n(2) show ?thesis by (intro exI [of _ n] conjI) (simp_all add: wired_def)
qed




theorem ports_truncated_witness:
  "\<exists>n served. main demo_crypto (demo_libs True True) demo_env Map.empty (\<lambda>_. True) demo_keys (demo_flags 65536) =
     Running n served \<and> unat (cfg_NodePort (demo_cfg 65536)) = 4001 \<and> served = None"
proof -
  obtain n where n: "main demo_crypto (demo_libs True True) demo_env Map.empty (\<lambda>_. True) demo_keys (demo_flags 65536) =
      Running n None"
    using demo_main [of True True 65536] by auto
  from ports_truncated [OF demo_parse n] n show ?thesis
    by (intro exI [of _ n] exI [of _ None]) (simp add: demo_flags_def demo_cfg_def)
qed

theorem second_offer_fails_but_applies_witness:
  "\<exists>n n' om'. api_SetOffer demo_env (time_Unix 100) 99 n = Inr ((False, False), n') \<and> wired n' om' Joined \<and>
     o_Capacity (om_offer om') = 99"
proof -
  obtain n om where w: "wired n om Joined" using demo_runs by (elim exE conjE)
  obtain ok om1 adv where set: "SetOffer (env_of demo_env n) (time_Unix 100) 10 om = (ok, om1, adv)"
    by (rule prod_cases3)
  with wired_SetOffer [OF w this] obtain n1 where "wired n1 om1 Joined" by blast
  moreover have "om_isOfferSet om1" using SetOffer_outcome [OF set] by simp
  ultimately obtain n' om' where n': "api_SetOffer demo_env (time_Unix 100) 99 n1 = Inr ((False, False), n')"
    "wired n' om' Joined" "om' = om1\<lparr>om_offer := (om_offer om1)\<lparr>o_Capacity := 99\<rparr>\<rparr>"
    using second_offer_fails_but_applies [of n1 om1 Joined demo_env "time_Unix 100" 99] by blast
  then have "o_Capacity (om_offer om') = 99" by simp
  with n' show ?thesis by blast
qed

theorem failed_upload_link_witness:
  "api_FindCustodians
     (demo_env\<lparr>n_ipfs := \<lparr>shell = (\<lambda>_ c. if c = ''pidof ipfs'' then Some [] else None),
        daemon_start = (\<lambda>_. True), daemon_out = (\<lambda>_ _. [])\<rparr>\<rparr>)
     ((NewNode False False)\<lparr>nd_contractManager := Some (NewContractManager (NewConnector ''QmNode'' 0))\<rparr>)
     ''f'' 100 1 1 []
     ((init_seek 0 (StorageCell \<lparr>SP_Multiaddr = [], SP_Done = False\<rparr>))\<lparr>sk_main := MDone\<rparr>) =
   Some (Inr (''https://ipfs.io/ipfs/'', True))"
  by (rule failed_upload_link [where pk = "''key''"])
    (simp_all add: NewNode_def encrypted_def demo_env_def init_seek_def Ipfser_def startIpfsDaemon_def
      executeCommand_def ipfser_def ipfser_cmd_def)

end
