(* ===== verification/Spec2Isabelle.thy ===== *)
theory Spec2Isabelle
  imports Ledger StreamHandlers Events HubBuses Transport SearchLiveness NodeServing Process
begin

text \<open>
  \<^bold>\<open>Omnidisk: a model of the node and its properties.\<close>

  Omnidisk is a peer-to-peer network for storing data.  A node offers capacity, accepts contracts
  (requests to pin some content in IPFS), advertises its offer and its contracts over a pubsub
  topic, and finds custodians for its own data.

  \<^bold>\<open>Parts and theories\<close>, in the order they build on each other:

  \<^item> \<open>Prelude\<close>: machine integers, number formatting and parsing as in \<^verbatim>\<open>strconv\<close>, \<^verbatim>\<open>strings.Split\<close>, panics as
    values, reachable states and the locale of invariants.  \<open>GoTime\<close>: the parts of package \<^verbatim>\<open>time\<close> the
    program uses, its RFC 3339 text included.  \<open>Json\<close>: \<^verbatim>\<open>encoding/json\<close> at the level of JSON values.
  \<^item> \<open>Entities\<close> (\<^verbatim>\<open>entities/entities.go\<close>), \<open>Messages\<close> (\<^verbatim>\<open>messages/entities.go\<close>), \<open>Events\<close>
    (\<^verbatim>\<open>events/entities.go\<close>): the data and its translations.
  \<^item> \<open>Msg_Types\<close>, \<open>Wire\<close>, \<open>Msg_Encode\<close>, \<open>Wire_Decode\<close>, \<open>Msg_Decode\<close> (\<^verbatim>\<open>gen/msg/msg.pb.go\<close>): the wire codec.
    Writers fill a buffer from its end, as the code does, and fail when it is too small; readers keep
    the position in the input and report the code's errors.  \<open>Transport\<close> composes the two directions.
  \<^item> \<open>Ipfs\<close> (\<^verbatim>\<open>ipfs/ipfs_manager.go\<close>): the command lines, over a shell that is a parameter.
  \<^item> \<open>OfferManager\<close> (\<^verbatim>\<open>node/offer_manager.go\<close>): one function per method; \<open>OfferConcurrency\<close>: the same methods
    cut at their lock operations and interleaved; \<open>Ledger\<close>: the abstract ledger they refine.
  \<^item> \<open>EventBus\<close> (\<^verbatim>\<open>events/event_handler.go\<close>): one subscription, its publishers and its close handler;
    \<open>NodeEvents\<close> (\<^verbatim>\<open>node/node.go\<close>): the node's list of subscriptions, each reduced to what the publisher sees of
    it; \<open>HubBuses\<close>: the list of real subscriptions, which refines it.
  \<^item> \<open>Identity\<close> (\<^verbatim>\<open>node/node.go\<close>): keys and signatures over a crypto library that is a parameter.
  \<^item> \<open>Connector\<close> (\<^verbatim>\<open>node/connector.go\<close>): the handler of incoming streams and \<^verbatim>\<open>Send\<close>, over a network that is a
    parameter.  \<open>ContractManager\<close> and \<open>SeekStorage\<close> (\<^verbatim>\<open>node/contract_manager.go\<close>): preparing contracts,
    listening for one's data, and the concurrent search for custodians; \<open>SearchLiveness\<close>: when it can end.
  \<^item> \<open>StreamHandlers\<close> (\<^verbatim>\<open>node/connector.go\<close>): the handlers of all incoming streams beside the trimmer and the
    calls, cut where they wait for each other; \<open>NodeServing\<close>: the handlers and the event hub together.
  \<^item> \<open>OmniManager\<close> (\<^verbatim>\<open>node/omni_manager.go\<close>): advertising and the subscription handler.
  \<^item> \<open>NodeCore\<close> (\<^verbatim>\<open>node/node.go\<close> and the constructors of the managers): the objects of a node and their wiring,
    the peer search, the calls, arriving streams, advertising.  \<open>Process\<close> (\<^verbatim>\<open>api/api.go\<close>, \<^verbatim>\<open>cmd/main.go\<close>): the
    API, the command line, and the life of the process from \<^verbatim>\<open>main\<close> to the signal that ends it.

  \<^bold>\<open>How code is represented.\<close>  A struct is a record (a nil pointer is \<open>None\<close>), a Go integer a word of
  its width, a string its bytes, an error return \<open>None\<close> or \<open>False\<close>, a panic the left side of a sum.
  Clocks, the shell, the file system's refusals and the libraries' answers are arguments.  Goroutines
  that share channels or locks are step relations whose steps are the code between two
  communications.

  \<^bold>\<open>What is shown.\<close>  Offer manager: the outcome of every operation, what the trimmer keeps and loses,
  that no interleaving makes it panic, that unlocked admission overcommits, that its sequential
  operations refine the ledger and so never promise more than was offered.  Codec: exact sizes, the
  writers equal a reference encoding, decoding inverts encoding, unknown fields survive, which inputs
  panic.  Event system: closing never blocks, when a publisher can panic, publishing ends within a
  bound, one forgotten subscriber stops everything, with the real subscriptions as well.  Searches:
  custodians are distinct and accepted, a served search has links, type assertions hold; a search can
  still succeed exactly as long as no slot is lost, and one failed connection loses one.  Handlers:
  one alone is the sequential function, together they refine the concurrent offer manager, conserve
  capacity and crash only on malformed requests; they can all be answered unless a subscription was
  abandoned, and then at most one more of them.  Composition: a storage request between two nodes,
  contracts from one node's advertising tick to the owner's search, both together (\<open>EndToEnd\<close>: data
  reported as stored is found again), an offer set through the API and the next peer's request.
  Process: the wiring holds for life, no call dereferences a missing manager, which happenings can
  end the process in a panic, what a failed join leads to.

  \<^bold>\<open>Interfaces.\<close>  \<open>invariant_system\<close> (Prelude) is used by every step relation, and \<open>simulation\<close>, which extends
  it, wherever a detailed system implements another: handlers and offer manager, real and reduced
  subscriptions, \<open>NodeServing\<close> and each of its two parts.  \<open>unmarshaller\<close> (Wire_Decode) is interpreted by the
  seven generated decoders; \<open>simulated_machine\<close> (Ledger) carries a simulation of single operations to
  sequences, for the offer manager.

  \<^bold>\<open>Bounds.\<close>  The decoding loops run on the length of the remaining input, which every field shortens, so
  no fuel is chosen.  The daemon's polling loop has the 30 rounds of the code.  Endless loops (ticks,
  subscription handlers) are modelled one round at a time; \<^verbatim>\<open>RetrieveDataV2\<close> takes the finite list of
  rounds it goes through and gives no result when none of them comes after its deadline.

  \<^bold>\<open>Not modelled.\<close>  The generated API codec and gRPC stubs (\<^verbatim>\<open>gen/api\<close>), the registration, descriptor and
  getter functions of \<^verbatim>\<open>gen/msg\<close>, logging, the text level of JSON, the bash scripts, data races on plain
  fields, and everything inside libp2p: the discovery of peers is what the host's addresses are in
  each round, pubsub is what it hands over.  The process's steps take a trimmer tick as one; its two
  halves are apart in \<open>StreamHandlers\<close>.
\<close>

end
